theory Spec2Isabelle
  imports Main "HOL-Library.AList" "HOL-Library.Sublist"
begin

section \<open>JavaScript values and string helpers\<close>

text \<open>
  Strings are lists of characters (one \<^typ>\<open>char\<close> per code unit). An optional property of a
  JavaScript object is an \<^typ>\<open>'a option\<close>: \<open>None\<close> is \<^verbatim>\<open>undefined\<close> (or \<^verbatim>\<open>null\<close>).
\<close>

text \<open>\<^verbatim>\<open>if (s)\<close> on an optional string: defined and not the empty string.\<close>

definition truthy :: "string option \<Rightarrow> bool" where
  "truthy s = (case s of None \<Rightarrow> False | Some v \<Rightarrow> v \<noteq> [])"

text \<open>\<^verbatim>\<open>s ?? d\<close>.\<close>

definition nullish_or :: "'a option \<Rightarrow> 'a \<Rightarrow> 'a" where
  "nullish_or s d = (case s of None \<Rightarrow> d | Some v \<Rightarrow> v)"

text \<open>Decimal rendering of an integer, as \<^verbatim>\<open>String(n)\<close> and template literals give it.\<close>

definition digit_char :: "nat \<Rightarrow> char" where
  "digit_char d = ''0123456789'' ! d"

fun string_of_nat :: "nat \<Rightarrow> string" where
  "string_of_nat n =
     (if n < 10 then [digit_char n] else string_of_nat (n div 10) @ [digit_char (n mod 10)])"

declare string_of_nat.simps [simp del]

definition string_of_int :: "int \<Rightarrow> string" where
  "string_of_int i = (if i < 0 then CHR ''-'' # string_of_nat (nat (- i)) else string_of_nat (nat i))"

subsection \<open>String methods\<close>

text \<open>\<^verbatim>\<open>xs.join(sep)\<close>.\<close>

fun js_join :: "string \<Rightarrow> string list \<Rightarrow> string" where
  "js_join sep [] = []"
| "js_join sep [x] = x"
| "js_join sep (x # y # ys) = x @ sep @ js_join sep (y # ys)"

text \<open>
  \<^verbatim>\<open>s.split(sep)\<close> for a string separator: the pieces between the occurrences of \<open>sep\<close>, found
  from the left and not overlapping. \<open>cur\<close> is the piece being read.
\<close>

function split_from :: "string \<Rightarrow> string \<Rightarrow> string \<Rightarrow> string list" where
  "split_from sep cur [] = [cur]"
| "split_from sep cur (c # cs) =
     (if sep \<noteq> [] \<and> prefix sep (c # cs)
      then cur # split_from sep [] (drop (length sep) (c # cs))
      else split_from sep (cur @ [c]) cs)"
  by pat_completeness auto
termination
  by (relation "measure (\<lambda>(sep, cur, s). length s)") auto

text \<open>The empty separator splits into single code units, and \<^verbatim>\<open>"".split("")\<close> is \<^verbatim>\<open>[]\<close>.\<close>

definition js_split :: "string \<Rightarrow> string \<Rightarrow> string list" where
  "js_split sep s = (if sep = [] then map (\<lambda>c. [c]) s else split_from sep [] s)"

text \<open>\<^verbatim>\<open>s.includes(sub)\<close>.\<close>

fun js_includes :: "string \<Rightarrow> string \<Rightarrow> bool" where
  "js_includes sub [] = (sub = [])"
| "js_includes sub (c # cs) = (prefix sub (c # cs) \<or> js_includes sub cs)"

text \<open>
  The first occurrence of \<open>pat\<close> in a string: the text before it and the text after it.
\<close>

fun find_first :: "string \<Rightarrow> string \<Rightarrow> (string \<times> string) option" where
  "find_first pat [] = (if pat = [] then Some ([], []) else None)"
| "find_first pat (c # cs) =
     (if prefix pat (c # cs) then Some ([], drop (length pat) (c # cs))
      else map_option (\<lambda>(b, a). (c # b, a)) (find_first pat cs))"

text \<open>
  The replacement text of \<^verbatim>\<open>String.prototype.replace\<close> (ECMAScript \<^verbatim>\<open>GetSubstitution\<close>, for a
  string pattern, which has no captures): \<^verbatim>\<open>$$\<close> is a dollar sign, \<^verbatim>\<open>$&\<close> the matched text,
  \<^verbatim>\<open>$`\<close> the text before the match, \<^verbatim>\<open>$'\<close> the text after it; any other character stands
  for itself.
\<close>

fun get_substitution :: "string \<Rightarrow> string \<Rightarrow> string \<Rightarrow> string \<Rightarrow> string" where
  "get_substitution matched pre post [] = []"
| "get_substitution matched pre post [c] = [c]"
| "get_substitution matched pre post (c # d # r) =
     (if c = CHR ''$'' \<and> d = CHR ''$'' then CHR ''$'' # get_substitution matched pre post r
      else if c = CHR ''$'' \<and> d = CHR ''&'' then matched @ get_substitution matched pre post r
      else if c = CHR ''$'' \<and> d = CHR 0x60 then pre @ get_substitution matched pre post r
      else if c = CHR ''$'' \<and> d = CHR 0x27 then post @ get_substitution matched pre post r
      else c # get_substitution matched pre post (d # r))"

text \<open>\<^verbatim>\<open>s.replace(pat, repl)\<close> with a string pattern: only the first occurrence is replaced.\<close>

definition js_replace :: "string \<Rightarrow> string \<Rightarrow> string \<Rightarrow> string" where
  "js_replace pat repl s =
     (case find_first pat s of
        None \<Rightarrow> s
      | Some (pre, post) \<Rightarrow> pre @ get_substitution pat pre post repl @ post)"

text \<open>
  Replacing every occurrence of a literal by a literal, as \<^verbatim>\<open>s.replace(/"/g, '\\"')\<close> and
  \<^verbatim>\<open>s.replace(/\*\*\//g, "")\<close> do (neither replacement holds a dollar sign).
\<close>

definition replace_all_literal :: "string \<Rightarrow> string \<Rightarrow> string \<Rightarrow> string" where
  "replace_all_literal pat repl s = js_join repl (split_from pat [] s)"

text \<open>
  White space, for \<^verbatim>\<open>trim\<close> and \<^verbatim>\<open>trimEnd\<close>. A string is the list of its code units, each below
  256 here; the white-space and line-terminator code units in that range are the tab, the
  line feed, the vertical tab, the form feed, the carriage return, the space and the
  no-break space.
\<close>

definition is_space :: "char \<Rightarrow> bool" where
  "is_space c = (c \<in> {CHR '' '', CHR 0x09, CHR 0x0A, CHR 0x0B, CHR 0x0C, CHR 0x0D, CHR 0xA0})"

definition js_trimEnd :: "string \<Rightarrow> string" where
  "js_trimEnd s = rev (dropWhile is_space (rev s))"

definition js_trim :: "string \<Rightarrow> string" where
  "js_trim s = dropWhile is_space (js_trimEnd s)"

text \<open>
  A stable sort by a comparator, as \<^verbatim>\<open>Array.prototype.sort(cmp)\<close> with a consistent comparator:
  the elements are inserted from the last to the first, each before the first element that
  does not sort before it, so that elements the comparator ties keep their order.
\<close>

fun insert_by :: "('a \<Rightarrow> 'a \<Rightarrow> int) \<Rightarrow> 'a \<Rightarrow> 'a list \<Rightarrow> 'a list" where
  "insert_by cmp x [] = [x]"
| "insert_by cmp x (y # ys) = (if cmp x y \<le> 0 then x # y # ys else y # insert_by cmp x ys)"

definition js_sort_by :: "('a \<Rightarrow> 'a \<Rightarrow> int) \<Rightarrow> 'a list \<Rightarrow> 'a list" where
  "js_sort_by cmp xs = foldr (insert_by cmp) xs []"

text \<open>The default order of \<^verbatim>\<open>sort()\<close> on strings: by code units.\<close>

fun code_unit_compare :: "string \<Rightarrow> string \<Rightarrow> int" where
  "code_unit_compare [] [] = 0"
| "code_unit_compare [] (y # ys) = -1"
| "code_unit_compare (x # xs) [] = 1"
| "code_unit_compare (x # xs) (y # ys) =
     (if (of_char x :: nat) < of_char y then -1
      else if (of_char y :: nat) < of_char x then 1
      else code_unit_compare xs ys)"

text \<open>\<^verbatim>\<open>xs.slice(start, end)\<close>: a negative bound counts from the end.\<close>

definition js_slice :: "int \<Rightarrow> int \<Rightarrow> 'a list \<Rightarrow> 'a list" where
  "js_slice start stop xs =
     (let len = int (length xs);
          k = (if start < 0 then max (len + start) 0 else min start len);
          e = (if stop < 0 then max (len + stop) 0 else min stop len)
      in take (nat (e - k)) (drop (nat k) xs))"

subsection \<open>Paths\<close>

text \<open>
  \<^verbatim>\<open>normalizeString\<close> of Node's POSIX \<^verbatim>\<open>path\<close> module, for an absolute path: empty segments and
  \<^verbatim>\<open>.\<close> are dropped, \<^verbatim>\<open>..\<close> removes the segment before it and is dropped at the root.
\<close>

fun normalize_segments :: "string list \<Rightarrow> string list \<Rightarrow> string list" where
  "normalize_segments acc [] = acc"
| "normalize_segments acc (seg # segs) =
     (if seg = [] \<or> seg = ''.'' then normalize_segments acc segs
      else if seg = ''..'' then normalize_segments (butlast acc) segs
      else normalize_segments (acc @ [seg]) segs)"

definition path_segments :: "string \<Rightarrow> string list" where
  "path_segments p = normalize_segments [] (js_split ''/'' p)"

definition path_of_segments :: "string list \<Rightarrow> string" where
  "path_of_segments segs = CHR ''/'' # js_join ''/'' segs"

definition is_absolute :: "string \<Rightarrow> bool" where
  "is_absolute p = (case p of [] \<Rightarrow> False | c # _ \<Rightarrow> c = CHR ''/'')"

text \<open>
  \<^verbatim>\<open>path.resolve(base, rel)\<close> on POSIX: the arguments are taken from the right until one is
  absolute, then the working directory \<open>cwd\<close> (an absolute path); the result is normalised.
\<close>

definition path_resolve :: "string \<Rightarrow> string \<Rightarrow> string \<Rightarrow> string" where
  "path_resolve cwd base rel =
     path_of_segments (path_segments
       (if is_absolute rel then rel
        else if is_absolute base then base @ ''/'' @ rel
        else cwd @ ''/'' @ base @ ''/'' @ rel))"

text \<open>\<^verbatim>\<open>path.dirname\<close> and the last segment, for a resolved path.\<close>

definition path_dirname :: "string \<Rightarrow> string" where
  "path_dirname p = path_of_segments (butlast (path_segments p))"

definition path_basename :: "string \<Rightarrow> string" where
  "path_basename p = (case rev (path_segments p) of [] \<Rightarrow> [] | seg # _ \<Rightarrow> seg)"

subsection \<open>The file system\<close>

text \<open>
  The part of Node's \<^verbatim>\<open>fs\<close> the tools use. The file system is the list of its nodes, keyed by
  resolved absolute path; the root directory always exists. A failing call throws an
  \<^verbatim>\<open>Error\<close>, which is its message here.
\<close>

datatype node = File string | Dir

type_synonym fsys = "(string \<times> node) list"

type_synonym exn = string

definition fs_lookup :: "fsys \<Rightarrow> string \<Rightarrow> node option" where
  "fs_lookup fs p = (if p = ''/'' then Some Dir else map_of fs p)"

definition fs_existsSync :: "fsys \<Rightarrow> string \<Rightarrow> bool" where
  "fs_existsSync fs p = (fs_lookup fs p \<noteq> None)"

text \<open>
  A path that is not there: the error is \<^verbatim>\<open>ENOTDIR\<close> when one of its ancestors is a regular
  file, \<^verbatim>\<open>ENOENT\<close> otherwise.
\<close>

definition fs_through_file :: "fsys \<Rightarrow> string \<Rightarrow> bool" where
  "fs_through_file fs p =
     list_ex (\<lambda>k. case fs_lookup fs (path_of_segments (take k (path_segments p))) of
                     Some (File c) \<Rightarrow> True
                   | _ \<Rightarrow> False)
       [1..<length (path_segments p)]"

definition fs_missing :: "fsys \<Rightarrow> string \<Rightarrow> string" where
  "fs_missing fs p =
     (if fs_through_file fs p then ''ENOTDIR: not a directory'' else ''ENOENT: no such file or directory'')"

definition fs_readFile :: "fsys \<Rightarrow> string \<Rightarrow> exn + string" where
  "fs_readFile fs p =
     (case fs_lookup fs p of
        None \<Rightarrow> Inl (fs_missing fs p @ '', open '' @ [CHR 0x27] @ p @ [CHR 0x27])
      | Some Dir \<Rightarrow> Inl ''EISDIR: illegal operation on a directory, read''
      | Some (File c) \<Rightarrow> Inr c)"

definition fs_writeFile :: "fsys \<Rightarrow> string \<Rightarrow> string \<Rightarrow> exn + fsys" where
  "fs_writeFile fs p c =
     (if fs_lookup fs p = Some Dir
      then Inl (''EISDIR: illegal operation on a directory, open '' @ [CHR 0x27] @ p @ [CHR 0x27])
      else case fs_lookup fs (path_dirname p) of
        None \<Rightarrow> Inl (fs_missing fs p @ '', open '' @ [CHR 0x27] @ p @ [CHR 0x27])
      | Some (File _) \<Rightarrow> Inl (''ENOTDIR: not a directory, open '' @ [CHR 0x27] @ p @ [CHR 0x27])
      | Some Dir \<Rightarrow> Inr (AList.update p (File c) fs))"

text \<open>\<^verbatim>\<open>mkdir(d, {recursive: true})\<close>: every missing ancestor is made, from the root down.\<close>

fun mkdir_along :: "fsys \<Rightarrow> string \<Rightarrow> string list \<Rightarrow> string list \<Rightarrow> exn + fsys" where
  "mkdir_along fs d done [] = Inr fs"
| "mkdir_along fs d done (seg # segs) =
     (let p = path_of_segments (done @ [seg]) in
      case fs_lookup fs p of
        None \<Rightarrow> mkdir_along (AList.update p Dir fs) d (done @ [seg]) segs
      | Some Dir \<Rightarrow> mkdir_along fs d (done @ [seg]) segs
      | Some (File _) \<Rightarrow>
          Inl ((if segs = [] then ''EEXIST: file already exists, mkdir ''
                else ''ENOTDIR: not a directory, mkdir '') @ [CHR 0x27] @ d @ [CHR 0x27]))"

definition fs_mkdir_recursive :: "fsys \<Rightarrow> string \<Rightarrow> exn + fsys" where
  "fs_mkdir_recursive fs d = mkdir_along fs d [] (path_segments d)"

record dirent =
  ent_name :: string
  ent_isDirectory :: bool

text \<open>\<^verbatim>\<open>readdir(p, {withFileTypes: true})\<close>: the nodes whose parent is \<open>p\<close>.\<close>

definition fs_readdir :: "fsys \<Rightarrow> string \<Rightarrow> exn + dirent list" where
  "fs_readdir fs p =
     (case fs_lookup fs p of
        None \<Rightarrow> Inl (fs_missing fs p @ '', scandir '' @ [CHR 0x27] @ p @ [CHR 0x27])
      | Some (File _) \<Rightarrow> Inl (''ENOTDIR: not a directory, scandir '' @ [CHR 0x27] @ p @ [CHR 0x27])
      | Some Dir \<Rightarrow>
          Inr (map (\<lambda>(k, n). \<lparr>ent_name = path_basename k, ent_isDirectory = (n = Dir)\<rparr>)
                 (filter (\<lambda>(k, n). path_segments k \<noteq> [] \<and> path_dirname k = path_of_segments (path_segments p)) fs)))"

subsection \<open>Values\<close>

text \<open>
  A parsed JSON value (the result of \<^verbatim>\<open>JSON.parse\<close>), with \<^verbatim>\<open>undefined\<close> for an absent
  property. Numbers are the integers; an object is its list of properties.
\<close>

datatype jsval =
  JUndefined
  | JNull
  | JBool bool
  | JNum int
  | JStr string
  | JArr "jsval list"
  | JObj "(string \<times> jsval) list"

text \<open>
  The string of a number that is an integer: all its digits when its magnitude is below
  \<open>10\<^sup>2\<^sup>1\<close>, exponent notation from there on, which is left to the engine (\<open>render\<close>).
\<close>

definition number_to_string :: "(int \<Rightarrow> string) \<Rightarrow> int \<Rightarrow> string" where
  "number_to_string render n = (if \<bar>n\<bar> < 10 ^ 21 then string_of_int n else render n)"

text \<open>The results of a list of conversions done in order, or the first exception.\<close>

fun all_right :: "(exn + 'a) list \<Rightarrow> exn + 'a list" where
  "all_right [] = Inr []"
| "all_right (Inl e # rs) = Inl e"
| "all_right (Inr x # rs) = (case all_right rs of Inl e \<Rightarrow> Inl e | Inr xs \<Rightarrow> Inr (x # xs))"

text \<open>
  \<^verbatim>\<open>String(v)\<close>, also the conversion in a template literal. An array is joined with commas,
  \<^verbatim>\<open>null\<close> and \<^verbatim>\<open>undefined\<close> elements giving the empty string. A parsed object has no callable
  property: when it has a property \<^verbatim>\<open>toString\<close> of its own, the conversion finds no method
  that returns a primitive and throws a \<^verbatim>\<open>TypeError\<close>; otherwise \<^verbatim>\<open>Object.prototype.toString\<close>
  answers.
\<close>

fun js_to_string :: "(int \<Rightarrow> string) \<Rightarrow> jsval \<Rightarrow> exn + string" where
  "js_to_string render JUndefined = Inr ''undefined''"
| "js_to_string render JNull = Inr ''null''"
| "js_to_string render (JBool b) = Inr (if b then ''true'' else ''false'')"
| "js_to_string render (JNum n) = Inr (number_to_string render n)"
| "js_to_string render (JStr s) = Inr s"
| "js_to_string render (JArr xs) =
     (case all_right (map (\<lambda>x. if x = JUndefined \<or> x = JNull then Inr []
                                 else js_to_string render x) xs) of
        Inl e \<Rightarrow> Inl e
      | Inr ss \<Rightarrow> Inr (js_join '','' ss))"
| "js_to_string render (JObj ps) =
     (if map_of ps ''toString'' \<noteq> None then Inl ''Cannot convert object to primitive value''
      else Inr ''[object Object]'')"

text \<open>\<^verbatim>\<open>v ? a : b\<close>: whether \<open>v\<close> is truthy.\<close>

fun js_truthy :: "jsval \<Rightarrow> bool" where
  "js_truthy JUndefined = False"
| "js_truthy JNull = False"
| "js_truthy (JBool b) = b"
| "js_truthy (JNum n) = (n \<noteq> 0)"
| "js_truthy (JStr s) = (s \<noteq> [])"
| "js_truthy (JArr xs) = True"
| "js_truthy (JObj ps) = True"

text \<open>\<^verbatim>\<open>v ?? d\<close>.\<close>

definition js_nullish_or :: "jsval \<Rightarrow> jsval \<Rightarrow> jsval" where
  "js_nullish_or v d = (if v = JUndefined \<or> v = JNull then d else v)"

text \<open>
  \<^verbatim>\<open>args.key\<close>: reading a property of \<^verbatim>\<open>null\<close> or \<^verbatim>\<open>undefined\<close> throws a \<^verbatim>\<open>TypeError\<close>; a value
  that is not an object has none of the keys the tools read.
\<close>

definition get_prop :: "jsval \<Rightarrow> string \<Rightarrow> exn + jsval" where
  "get_prop args key =
     (case args of
        JUndefined \<Rightarrow> Inl (''Cannot read properties of undefined (reading '' @ [CHR 0x27] @ key @ [CHR 0x27] @ '')'')
      | JNull \<Rightarrow> Inl (''Cannot read properties of null (reading '' @ [CHR 0x27] @ key @ [CHR 0x27] @ '')'')
      | JObj ps \<Rightarrow> Inr (case map_of ps key of None \<Rightarrow> JUndefined | Some v \<Rightarrow> v)
      | _ \<Rightarrow> Inr JUndefined)"

text \<open>
  \<^verbatim>\<open>Number(v)\<close>, \<open>None\<close> for \<^verbatim>\<open>NaN\<close>; \<open>parse\<close> is the conversion of a string, which belongs to
  the JavaScript engine. An array is converted through its string; an object throws as
  \<^verbatim>\<open>String\<close> does, and is not a number otherwise.
\<close>

definition js_to_number :: "(int \<Rightarrow> string) \<Rightarrow> (string \<Rightarrow> int option) \<Rightarrow> jsval \<Rightarrow> exn + int option" where
  "js_to_number render parse v =
     (case v of
        JUndefined \<Rightarrow> Inr None
      | JNull \<Rightarrow> Inr (Some 0)
      | JBool b \<Rightarrow> Inr (Some (if b then 1 else 0))
      | JNum n \<Rightarrow> Inr (Some n)
      | JStr s \<Rightarrow> Inr (parse s)
      | JArr xs \<Rightarrow> (case js_to_string render (JArr xs) of Inl e \<Rightarrow> Inl e | Inr s \<Rightarrow> Inr (parse s))
      | JObj ps \<Rightarrow> (case js_to_string render (JObj ps) of Inl e \<Rightarrow> Inl e | Inr s \<Rightarrow> Inr None))"

section \<open>Wire protocol: streamed chunks\<close>

text \<open>
  One element of \<^verbatim>\<open>delta.tool_calls\<close>: the positional index, and the optional id, function
  name and slice of the arguments string (\<^verbatim>\<open>tc.function?.name\<close> and \<^verbatim>\<open>tc.function?.arguments\<close>
  are \<open>None\<close> when \<^verbatim>\<open>function\<close> or the field is absent).
\<close>

record tool_call_delta =
  tc_index :: int
  tc_id :: "string option"
  tc_name :: "string option"
  tc_arguments :: "string option"

record stream_delta =
  delta_content :: "string option"
  delta_tool_calls :: "tool_call_delta list option"

text \<open>A chunk is the list of its choices' deltas.\<close>

type_synonym stream_chunk = "stream_delta list"

text \<open>A finished tool-call descriptor (\<^verbatim>\<open>ToolCall\<close>; its \<^verbatim>\<open>type\<close> is always \<^verbatim>\<open>"function"\<close>).\<close>

record tool_call =
  call_id :: string
  call_name :: string
  call_arguments :: string

record tool_result =
  result_content :: string
  isError :: bool

text \<open>A message of the conversation (\<^verbatim>\<open>ChatMessage\<close>, \<^verbatim>\<open>CopilotChatMessage\<close>).\<close>

datatype role = RoleSystem | RoleUser | RoleAssistant | RoleTool

record chat_message =
  msg_role :: role
  msg_content :: "string option"
  msg_tool_calls :: "tool_call list option"
  msg_tool_call_id :: "string option"

text \<open>
  A decoded data record of the stream, as far as its shape matters to the code that reads
  it: \<^verbatim>\<open>choices\<close> may be missing, and a choice may lack its \<^verbatim>\<open>delta\<close>.
\<close>

type_synonym wire_chunk = "stream_delta option list option"

text \<open>
  A line of the response body: one that is skipped (blank, without the \<^verbatim>\<open>data: \<close> prefix,
  or whose JSON does not parse), the sentinel \<^verbatim>\<open>data: [DONE]\<close>, or a data record.
\<close>

datatype sse_line = SkipLine | DoneLine | DataLine wire_chunk

text \<open>\<^verbatim>\<open>CopilotToken\<close>: the bearer credential and its expiry, in seconds.\<close>

record copilot_token =
  tok_token :: string
  tok_expiresAt :: int

section \<open>Values exchanged with the model and events shown to the caller\<close>

text \<open>
  What the caller observes: the callbacks of \<^verbatim>\<open>AgentCallbacks\<close> (\<^verbatim>\<open>onTextDelta\<close>, \<^verbatim>\<open>onTextDone\<close>,
  \<^verbatim>\<open>onToolCallStart\<close>, \<^verbatim>\<open>onToolCallInput\<close>, \<^verbatim>\<open>onToolCallComplete\<close>, \<^verbatim>\<open>onError\<close>, \<^verbatim>\<open>onDone\<close>) and
  the chunks \<^verbatim>\<open>CopilotService.query\<close> yields (\<^verbatim>\<open>text\<close>, \<^verbatim>\<open>tool_use\<close>, \<^verbatim>\<open>tool_result\<close>, \<^verbatim>\<open>error\<close>,
  \<^verbatim>\<open>done\<close>), in the order they happen.
\<close>

datatype event =
  TextDelta string
  | TextDone string
  | ToolCallStart string string
  | ToolCallInput string string
  | ToolCallComplete string string jsval tool_result
  | ToolUse string string jsval
  | ToolResult string string bool
  | ErrorEvent string
  | Done

section \<open>Environment\<close>

text \<open>What \<^verbatim>\<open>child_process.exec\<close> hands to its callback.\<close>

record proc_error =
  err_killed :: bool
  err_message :: string

record proc_result =
  proc_err :: "proc_error option"
  proc_stdout :: string
  proc_stderr :: string

text \<open>
  Everything outside the program is a parameter:
  \<^item> \<open>env_cwd\<close>: \<^verbatim>\<open>process.cwd()\<close>;
  \<^item> \<open>env_number_of_string\<close>: \<^verbatim>\<open>Number(s)\<close> on a string (\<open>None\<close> is \<^verbatim>\<open>NaN\<close>);
  \<^item> \<open>env_number_to_string\<close>: the string of a number whose magnitude is \<open>10\<^sup>2\<^sup>1\<close> or more;
  \<^item> \<open>env_localeCompare\<close>: \<^verbatim>\<open>a.localeCompare(b)\<close>;
  \<^item> \<open>env_regexp_remove_all src\<close>: \<^verbatim>\<open>new RegExp(src, "g")\<close>, which throws a \<^verbatim>\<open>SyntaxError\<close> when
    \<open>src\<close> is not a pattern, and then \<^verbatim>\<open>s.replace(re, "")\<close>;
  \<^item> \<open>env_exec cmd cwd timeout maxBuffer fs\<close>: running a shell command, which throws at once
    or calls back with a \<^typ>\<open>proc_result\<close>, and leaves a file system;
  \<^item> \<open>env_clock k\<close>: what the \<open>k\<close>-th call of \<^verbatim>\<open>Date.now()\<close> returns, in milliseconds;
  \<^item> \<open>env_cancel_after\<close>: \<open>Some k\<close> when \<^verbatim>\<open>cancel()\<close> is called after the \<open>k\<close>-th look at the
    abort signal within a \<^verbatim>\<open>send\<close> (the first \<open>k\<close> looks see it clear, every later one sees
    it set), \<open>None\<close> when it is never called;
  \<^item> \<open>env_fetch_token n pat\<close>: \<^verbatim>\<open>fetchCopilotToken(pat)\<close> as the \<open>n\<close>-th request made;
  \<^item> \<open>env_chat_text n token model messages\<close>: the chat request of \<^verbatim>\<open>requestUrl\<close>, which throws
    or returns the whole body, here its lines;
  \<^item> \<open>env_chat_once\<close>: the same request without streaming (\<^verbatim>\<open>sendChat\<close>): it throws or returns
    the assistant message;
  \<^item> \<open>env_chat_fetch\<close>: the chat request of \<^verbatim>\<open>fetch\<close>, which throws or returns a body read
    piece by piece: the lines each \<^verbatim>\<open>reader.read()\<close> completes, and the error of the read
    that fails, if one does;
  \<^item> \<open>env_json_parse\<close>: \<^verbatim>\<open>JSON.parse\<close>, \<open>None\<close> when it throws;
  \<^item> \<open>env_abort_message\<close>: the message of the error an aborted \<^verbatim>\<open>fetch\<close> or read rejects with.
\<close>

record env =
  env_cwd :: string
  env_number_of_string :: "string \<Rightarrow> int option"
  env_number_to_string :: "int \<Rightarrow> string"
  env_localeCompare :: "string \<Rightarrow> string \<Rightarrow> int"
  env_regexp_remove_all :: "string \<Rightarrow> exn + (string \<Rightarrow> string)"
  env_exec :: "string \<Rightarrow> string \<Rightarrow> int \<Rightarrow> int \<Rightarrow> fsys \<Rightarrow> (exn + proc_result) \<times> fsys"
  env_clock :: "nat \<Rightarrow> int"
  env_cancel_after :: "nat option"
  env_fetch_token :: "nat \<Rightarrow> string \<Rightarrow> exn + copilot_token"
  env_chat_text :: "nat \<Rightarrow> string \<Rightarrow> string \<Rightarrow> chat_message list \<Rightarrow> exn + sse_line list"
  env_chat_once :: "nat \<Rightarrow> string \<Rightarrow> string \<Rightarrow> chat_message list \<Rightarrow> exn + chat_message"
  env_chat_fetch ::
    "nat \<Rightarrow> string \<Rightarrow> string \<Rightarrow> chat_message list \<Rightarrow> exn + (sse_line list list \<times> exn option)"
  env_json_parse :: "string \<Rightarrow> jsval option"
  env_abort_message :: string

section \<open>Tool executors\<close>

text \<open>
  How a tool call ends: with a result; with an exception thrown inside the \<^verbatim>\<open>async\<close> method
  (a rejected promise, which \<^verbatim>\<open>execute\<close> catches); or with an exception thrown inside the
  callback of \<^verbatim>\<open>exec\<close>, which no handler catches and which leaves the promise unsettled,
  so that \<^verbatim>\<open>await\<close> never resumes.
\<close>

datatype tool_outcome = Result tool_result | Thrown exn | Escaped exn

text \<open>\<^verbatim>\<open>String(v)\<close> and \<^verbatim>\<open>Number(v)\<close> in an environment.\<close>

definition to_string :: "env \<Rightarrow> jsval \<Rightarrow> exn + string" where
  "to_string env v = js_to_string (env_number_to_string env) v"

definition to_number :: "env \<Rightarrow> jsval \<Rightarrow> exn + int option" where
  "to_number env v = js_to_number (env_number_to_string env) (env_number_of_string env) v"

text \<open>One step after another, unless the first throws.\<close>

definition and_then :: "exn + 'a \<Rightarrow> ('a \<Rightarrow> exn + 'b) \<Rightarrow> exn + 'b" where
  "and_then r f = (case r of Inl e \<Rightarrow> Inl e | Inr x \<Rightarrow> f x)"

definition js_prop :: "jsval \<Rightarrow> string \<Rightarrow> jsval" where
  "js_prop args key = (case get_prop args key of Inl _ \<Rightarrow> JUndefined | Inr v \<Rightarrow> v)"

definition or_else :: "string \<Rightarrow> string \<Rightarrow> string" where
  "or_else s d = (if s = [] then d else s)"

definition number_or :: "jsval \<Rightarrow> int \<Rightarrow> int" where
  "number_or v d = (case v of JNum n \<Rightarrow> n | _ \<Rightarrow> d)"

definition number_lines :: "int \<Rightarrow> string list \<Rightarrow> string list" where
  "number_lines start ls =
     map (\<lambda>(i, line). string_of_int (start + int i + 1) @ [CHR 0x09] @ line) (enumerate 0 ls)"

definition dquote :: string where
  "dquote = [CHR 0x22]"

definition newline :: string where
  "newline = [CHR 0x0A]"

subsection \<open>\<^verbatim>\<open>ToolExecutor\<close> (copilot-plugin)\<close>

text \<open>\<^verbatim>\<open>TOOL_NAMES\<close>.\<close>

definition TOOL_READ :: string where "TOOL_READ = ''read_file''"
definition TOOL_WRITE :: string where "TOOL_WRITE = ''write_file''"
definition TOOL_EDIT :: string where "TOOL_EDIT = ''edit_file''"
definition TOOL_BASH :: string where "TOOL_BASH = ''bash''"
definition TOOL_GREP :: string where "TOOL_GREP = ''grep''"
definition TOOL_GLOB :: string where "TOOL_GLOB = ''glob''"
definition TOOL_LS :: string where "TOOL_LS = ''list_directory''"

definition plugin_resolvePath :: "env \<Rightarrow> string \<Rightarrow> string \<Rightarrow> exn + string" where
  "plugin_resolvePath env vault relativePath =
     (let resolved = path_resolve (env_cwd env) vault relativePath in
      if \<not> prefix vault resolved
      then Inl ''Path traversal not allowed: path must be within the vault''
      else Inr resolved)"

definition plugin_readFile :: "env \<Rightarrow> string \<Rightarrow> jsval \<Rightarrow> fsys \<Rightarrow> tool_outcome \<times> fsys" where
  "plugin_readFile env vault args fs =
     (case get_prop args ''file_path'' of
        Inl e \<Rightarrow> (Thrown e, fs)
      | Inr fp \<Rightarrow>
     (case to_string env fp of
        Inl e \<Rightarrow> (Thrown e, fs)
      | Inr filePath \<Rightarrow>
     (case plugin_resolvePath env vault filePath of
        Inl e \<Rightarrow> (Thrown e, fs)
      | Inr absPath \<Rightarrow>
     (let offset = number_or (js_prop args ''offset'') 1;
          limit = number_or (js_prop args ''limit'') 2000
      in case fs_readFile fs absPath of
        Inl e \<Rightarrow> (Thrown e, fs)
      | Inr content \<Rightarrow>
     (let ls = js_split newline content;
          startIdx = max 0 (offset - 1);
          selected = js_slice startIdx (startIdx + limit) ls;
          numbered = js_join newline (number_lines startIdx selected)
      in (Result \<lparr>result_content = numbered, isError = False\<rparr>, fs))))))"

definition plugin_writeFile :: "env \<Rightarrow> string \<Rightarrow> jsval \<Rightarrow> fsys \<Rightarrow> tool_outcome \<times> fsys" where
  "plugin_writeFile env vault args fs =
     (case get_prop args ''file_path'' of
        Inl e \<Rightarrow> (Thrown e, fs)
      | Inr fp \<Rightarrow>
     (case to_string env fp of
        Inl e \<Rightarrow> (Thrown e, fs)
      | Inr filePath \<Rightarrow>
     (case to_string env (js_prop args ''content'') of
        Inl e \<Rightarrow> (Thrown e, fs)
      | Inr content \<Rightarrow>
     (case plugin_resolvePath env vault filePath of
        Inl e \<Rightarrow> (Thrown e, fs)
      | Inr absPath \<Rightarrow>
     (case (if \<not> fs_existsSync fs (path_dirname absPath)
            then fs_mkdir_recursive fs (path_dirname absPath) else Inr fs) of
        Inl e \<Rightarrow> (Thrown e, fs)
      | Inr fs1 \<Rightarrow>
     (case fs_writeFile fs1 absPath content of
        Inl e \<Rightarrow> (Thrown e, fs1)
      | Inr fs2 \<Rightarrow>
          (Result \<lparr>result_content =
                     ''Wrote '' @ string_of_int (int (length (js_split newline content)))
                       @ '' lines to '' @ filePath,
                   isError = False\<rparr>, fs2)))))))"

text \<open>
  In the message for an \<^verbatim>\<open>old_string\<close> that is not unique the source has a dash (U+2014),
  written as a hyphen here.
\<close>

definition plugin_editFile :: "env \<Rightarrow> string \<Rightarrow> jsval \<Rightarrow> fsys \<Rightarrow> tool_outcome \<times> fsys" where
  "plugin_editFile env vault args fs =
     (case get_prop args ''file_path'' of
        Inl e \<Rightarrow> (Thrown e, fs)
      | Inr fp \<Rightarrow>
     (case to_string env fp of
        Inl e \<Rightarrow> (Thrown e, fs)
      | Inr filePath \<Rightarrow>
     (case to_string env (js_prop args ''old_string'') of
        Inl e \<Rightarrow> (Thrown e, fs)
      | Inr oldString \<Rightarrow>
     (case to_string env (js_prop args ''new_string'') of
        Inl e \<Rightarrow> (Thrown e, fs)
      | Inr newString \<Rightarrow>
     (case plugin_resolvePath env vault filePath of
        Inl e \<Rightarrow> (Thrown e, fs)
      | Inr absPath \<Rightarrow>
     (case fs_readFile fs absPath of
        Inl e \<Rightarrow> (Thrown e, fs)
      | Inr content \<Rightarrow>
     (let occurrences = int (length (js_split oldString content)) - 1 in
      if occurrences = 0
      then (Result \<lparr>result_content = ''old_string not found in '' @ filePath, isError = True\<rparr>, fs)
      else if occurrences > 1
      then (Result \<lparr>result_content =
                      ''old_string found '' @ string_of_int occurrences @ '' times in '' @ filePath
                        @ '' - must be unique. Provide more surrounding context.'',
                    isError = True\<rparr>, fs)
      else case fs_writeFile fs absPath (js_replace oldString newString content) of
        Inl e \<Rightarrow> (Thrown e, fs)
      | Inr fs1 \<Rightarrow>
          (Result \<lparr>result_content = ''Edited '' @ filePath @ '' successfully'', isError = False\<rparr>,
           fs1))))))))"

definition plugin_blocklist :: "string list" where
  "plugin_blocklist = [''rm -rf /'', ''rm -rf ~'', ''mkfs'', ''dd if='', '':(){:|:&};:'']"

text \<open>The callback of \<^verbatim>\<open>exec\<close> in \<^verbatim>\<open>bash\<close>.\<close>

definition plugin_bash_callback :: "proc_result \<Rightarrow> tool_outcome" where
  "plugin_bash_callback r =
     (if (case proc_err r of None \<Rightarrow> False | Some err \<Rightarrow> err_killed err)
      then Result \<lparr>result_content = ''Command timed out after 30 seconds'', isError = True\<rparr>
      else
        (let output =
               js_join newline
                 (filter (\<lambda>x. x \<noteq> [])
                    [if proc_stdout r \<noteq> [] then js_trimEnd (proc_stdout r) else [],
                     if proc_stderr r \<noteq> [] then ''STDERR:'' @ newline @ js_trimEnd (proc_stderr r)
                     else []])
         in Result \<lparr>result_content = or_else output ''(no output)'',
                    isError = (proc_err r \<noteq> None)\<rparr>))"

definition plugin_bash :: "env \<Rightarrow> string \<Rightarrow> jsval \<Rightarrow> fsys \<Rightarrow> tool_outcome \<times> fsys" where
  "plugin_bash env vault args fs =
     (case get_prop args ''command'' of
        Inl e \<Rightarrow> (Thrown e, fs)
      | Inr c \<Rightarrow>
     (case to_string env c of
        Inl e \<Rightarrow> (Thrown e, fs)
      | Inr command \<Rightarrow>
     (case List.find (\<lambda>blocked. js_includes blocked command) plugin_blocklist of
        Some blocked \<Rightarrow>
          (Result \<lparr>result_content = ''Blocked dangerous command: '' @ blocked, isError = True\<rparr>, fs)
      | None \<Rightarrow>
     (case env_exec env command vault 30000 (1024 * 1024) fs of
        (Inl e, fs1) \<Rightarrow> (Thrown e, fs1)
      | (Inr r, fs1) \<Rightarrow> (plugin_bash_callback r, fs1)))))"

text \<open>The command line of \<^verbatim>\<open>grep\<close> and the callback of its \<^verbatim>\<open>exec\<close>.\<close>

definition plugin_grep_command :: "env \<Rightarrow> string \<Rightarrow> string \<Rightarrow> int \<Rightarrow> string \<Rightarrow> string" where
  "plugin_grep_command env include pattern contextLines absPath =
     ''grep -rn --color=never''
     @ (if include \<noteq> [] then '' --include='' @ dquote @ include @ dquote else [])
     @ (if contextLines > 0
        then '' -C '' @ number_to_string (env_number_to_string env) contextLines else [])
     @ '' -E '' @ dquote @ replace_all_literal dquote ([CHR 0x5C] @ dquote) pattern @ dquote
     @ '' '' @ dquote @ absPath @ dquote"

definition plugin_grep_callback :: "env \<Rightarrow> string \<Rightarrow> proc_result \<Rightarrow> tool_outcome" where
  "plugin_grep_callback env vault r =
     (if js_trim (proc_stdout r) = []
      then Result \<lparr>result_content = ''No matches found'', isError = False\<rparr>
      else case env_regexp_remove_all env (vault @ ''/'') of
        Inl e \<Rightarrow> Escaped e
      | Inr strip \<Rightarrow>
          (let ls = js_split newline (js_trim (strip (proc_stdout r)));
               truncated =
                 (if int (length ls) > 200
                  then js_join newline (js_slice 0 200 ls) @ newline @ ''... (''
                         @ string_of_int (int (length ls) - 200) @ '' more lines)''
                  else js_join newline ls)
           in Result \<lparr>result_content = truncated, isError = False\<rparr>))"

definition plugin_grep :: "env \<Rightarrow> string \<Rightarrow> jsval \<Rightarrow> fsys \<Rightarrow> tool_outcome \<times> fsys" where
  "plugin_grep env vault args fs =
     (case get_prop args ''pattern'' of
        Inl e \<Rightarrow> (Thrown e, fs)
      | Inr pat \<Rightarrow>
     (case to_string env pat of
        Inl e \<Rightarrow> (Thrown e, fs)
      | Inr pattern \<Rightarrow>
     (case (if js_truthy (js_prop args ''path'') then to_string env (js_prop args ''path'')
            else Inr ''.'') of
        Inl e \<Rightarrow> (Thrown e, fs)
      | Inr searchPath \<Rightarrow>
     (case (if js_truthy (js_prop args ''include'') then to_string env (js_prop args ''include'')
            else Inr []) of
        Inl e \<Rightarrow> (Thrown e, fs)
      | Inr include \<Rightarrow>
     (let contextLines = number_or (js_prop args ''context_lines'') 0
      in case plugin_resolvePath env vault searchPath of
        Inl e \<Rightarrow> (Thrown e, fs)
      | Inr absPath \<Rightarrow>
     (case env_exec env (plugin_grep_command env include pattern contextLines absPath) vault 15000
             (1024 * 512) fs of
        (Inl e, fs1) \<Rightarrow> (Thrown e, fs1)
      | (Inr r, fs1) \<Rightarrow> (plugin_grep_callback env vault r, fs1)))))))"

text \<open>The command line of \<^verbatim>\<open>glob\<close> and the callback of its \<^verbatim>\<open>exec\<close>.\<close>

definition plugin_glob_command :: "string \<Rightarrow> string \<Rightarrow> string" where
  "plugin_glob_command absPath pattern =
     ''find '' @ dquote @ absPath @ dquote @ '' -type f -name '' @ dquote
     @ replace_all_literal ''**/'' [] pattern @ dquote @ '' 2>/dev/null | head -200''"

definition plugin_glob_callback :: "env \<Rightarrow> string \<Rightarrow> proc_result \<Rightarrow> tool_outcome" where
  "plugin_glob_callback env vault r =
     (if js_trim (proc_stdout r) = []
      then Result \<lparr>result_content = ''No files matched'', isError = False\<rparr>
      else case env_regexp_remove_all env (vault @ ''/'') of
        Inl e \<Rightarrow> Escaped e
      | Inr strip \<Rightarrow> Result \<lparr>result_content = js_trim (strip (proc_stdout r)), isError = False\<rparr>)"

definition plugin_glob :: "env \<Rightarrow> string \<Rightarrow> jsval \<Rightarrow> fsys \<Rightarrow> tool_outcome \<times> fsys" where
  "plugin_glob env vault args fs =
     (case get_prop args ''pattern'' of
        Inl e \<Rightarrow> (Thrown e, fs)
      | Inr pat \<Rightarrow>
     (case to_string env pat of
        Inl e \<Rightarrow> (Thrown e, fs)
      | Inr pattern \<Rightarrow>
     (case (if js_truthy (js_prop args ''path'') then to_string env (js_prop args ''path'')
            else Inr ''.'') of
        Inl e \<Rightarrow> (Thrown e, fs)
      | Inr searchPath \<Rightarrow>
     (case plugin_resolvePath env vault searchPath of
        Inl e \<Rightarrow> (Thrown e, fs)
      | Inr absPath \<Rightarrow>
     (case env_exec env (plugin_glob_command absPath pattern) vault 10000 (1024 * 256) fs of
        (Inl e, fs1) \<Rightarrow> (Thrown e, fs1)
      | (Inr r, fs1) \<Rightarrow> (plugin_glob_callback env vault r, fs1))))))"

text \<open>The comparator of \<^verbatim>\<open>ls\<close>: directories first, then by \<^verbatim>\<open>localeCompare\<close>.\<close>

definition plugin_ls_compare :: "env \<Rightarrow> dirent \<Rightarrow> dirent \<Rightarrow> int" where
  "plugin_ls_compare env a b =
     (if ent_isDirectory a \<and> \<not> ent_isDirectory b then -1
      else if \<not> ent_isDirectory a \<and> ent_isDirectory b then 1
      else env_localeCompare env (ent_name a) (ent_name b))"

definition plugin_ls :: "env \<Rightarrow> string \<Rightarrow> jsval \<Rightarrow> fsys \<Rightarrow> tool_outcome \<times> fsys" where
  "plugin_ls env vault args fs =
     (case get_prop args ''path'' of
        Inl e \<Rightarrow> (Thrown e, fs)
      | Inr p \<Rightarrow>
     (case (if js_truthy p then to_string env p else Inr ''.'') of
        Inl e \<Rightarrow> (Thrown e, fs)
      | Inr dirPath \<Rightarrow>
     (case plugin_resolvePath env vault dirPath of
        Inl e \<Rightarrow> (Thrown e, fs)
      | Inr absPath \<Rightarrow>
     (case fs_readdir fs absPath of
        Inl e \<Rightarrow> (Thrown e, fs)
      | Inr entries \<Rightarrow>
          (let ls = map (\<lambda>e. (if ent_isDirectory e then ''[dir]  '' else ''[file] '') @ ent_name e)
                      (js_sort_by (plugin_ls_compare env) entries)
           in (Result \<lparr>result_content = or_else (js_join newline ls) ''(empty directory)'',
                       isError = False\<rparr>, fs))))))"

text \<open>The \<^verbatim>\<open>try\<close>/\<^verbatim>\<open>catch\<close> of \<^verbatim>\<open>execute\<close>.\<close>

definition catch_thrown :: "tool_outcome \<times> fsys \<Rightarrow> tool_outcome \<times> fsys" where
  "catch_thrown r =
     (case fst r of
        Thrown e \<Rightarrow> (Result \<lparr>result_content = ''Error: '' @ e, isError = True\<rparr>, snd r)
      | _ \<Rightarrow> r)"

definition plugin_execute :: "env \<Rightarrow> string \<Rightarrow> string \<Rightarrow> jsval \<Rightarrow> fsys \<Rightarrow> tool_outcome \<times> fsys" where
  "plugin_execute env vault toolName args fs =
     catch_thrown
       (if toolName = TOOL_READ then plugin_readFile env vault args fs
        else if toolName = TOOL_WRITE then plugin_writeFile env vault args fs
        else if toolName = TOOL_EDIT then plugin_editFile env vault args fs
        else if toolName = TOOL_BASH then plugin_bash env vault args fs
        else if toolName = TOOL_GREP then plugin_grep env vault args fs
        else if toolName = TOOL_GLOB then plugin_glob env vault args fs
        else if toolName = TOOL_LS then plugin_ls env vault args fs
        else (Result \<lparr>result_content = ''Unknown tool: '' @ toolName, isError = True\<rparr>, fs))"

subsection \<open>\<^verbatim>\<open>CopilotToolExecutor\<close> (the Copilot provider)\<close>

text \<open>
  \<^verbatim>\<open>COPILOT_TOOL_NAMES\<close> is declared in a module that is not among the sources; the names are
  a parameter.
\<close>

record tool_names =
  name_READ :: string
  name_WRITE :: string
  name_EDIT :: string
  name_BASH :: string
  name_GREP :: string
  name_GLOB :: string
  name_LS :: string

text \<open>\<^verbatim>\<open>path.relative(from, to)\<close>.\<close>

fun drop_common :: "string list \<Rightarrow> string list \<Rightarrow> string list \<times> string list" where
  "drop_common (x # xs) (y # ys) = (if x = y then drop_common xs ys else (x # xs, y # ys))"
| "drop_common xs ys = (xs, ys)"

definition path_relative :: "string \<Rightarrow> string \<Rightarrow> string \<Rightarrow> string" where
  "path_relative cwd from_path to_path =
     (let (a, b) = drop_common (path_segments (path_resolve cwd [] from_path))
                               (path_segments (path_resolve cwd [] to_path))
      in js_join ''/'' (replicate (length a) ''..'' @ b))"

definition service_resolvePath :: "env \<Rightarrow> string \<Rightarrow> string \<Rightarrow> exn + string" where
  "service_resolvePath env vault relativePath =
     (let resolved = path_resolve (env_cwd env) vault relativePath in
      if \<not> prefix vault resolved
      then Inl (''Path traversal detected: '' @ relativePath)
      else Inr resolved)"

definition service_readFile :: "env \<Rightarrow> string \<Rightarrow> jsval \<Rightarrow> fsys \<Rightarrow> tool_outcome \<times> fsys" where
  "service_readFile env vault args fs =
     (case get_prop args ''file_path'' of
        Inl e \<Rightarrow> (Thrown e, fs)
      | Inr fp \<Rightarrow>
     (case and_then (to_string env (js_nullish_or fp (JStr []))) (service_resolvePath env vault) of
        Inl e \<Rightarrow> (Thrown e, fs)
      | Inr filePath \<Rightarrow>
     (case to_number env (js_nullish_or (js_prop args ''offset'') (JNum 1)) of
        Inl e \<Rightarrow> (Thrown e, fs)
      | Inr offset \<Rightarrow>
     (case to_number env (js_nullish_or (js_prop args ''limit'') (JNum 2000)) of
        Inl e \<Rightarrow> (Thrown e, fs)
      | Inr limit \<Rightarrow>
     (case fs_readFile fs filePath of
        Inl e \<Rightarrow> (Thrown e, fs)
      | Inr content \<Rightarrow>
     (let ls = js_split newline content;
          numbered =
            (case (offset, limit) of
               (Some off, Some lim) \<Rightarrow>
                 (let start = max 0 (off - 1);
                      stop = min (int (length ls)) (start + lim)
                  in js_join newline (number_lines start (js_slice start stop ls)))
             | _ \<Rightarrow> [])
      in (Result \<lparr>result_content = numbered, isError = False\<rparr>, fs)))))))"

definition service_writeFile :: "env \<Rightarrow> string \<Rightarrow> jsval \<Rightarrow> fsys \<Rightarrow> tool_outcome \<times> fsys" where
  "service_writeFile env vault args fs =
     (case get_prop args ''file_path'' of
        Inl e \<Rightarrow> (Thrown e, fs)
      | Inr fp \<Rightarrow>
     (case and_then (to_string env (js_nullish_or fp (JStr []))) (service_resolvePath env vault) of
        Inl e \<Rightarrow> (Thrown e, fs)
      | Inr filePath \<Rightarrow>
     (case to_string env (js_nullish_or (js_prop args ''content'') (JStr [])) of
        Inl e \<Rightarrow> (Thrown e, fs)
      | Inr content \<Rightarrow>
     (case fs_mkdir_recursive fs (path_dirname filePath) of
        Inl e \<Rightarrow> (Thrown e, fs)
      | Inr fs1 \<Rightarrow>
     (case fs_writeFile fs1 filePath content of
        Inl e \<Rightarrow> (Thrown e, fs1)
      | Inr fs2 \<Rightarrow>
     (case to_string env fp of
        Inl e \<Rightarrow> (Thrown e, fs2)
      | Inr shown \<Rightarrow>
          (Result \<lparr>result_content = ''File written: '' @ shown, isError = False\<rparr>, fs2)))))))"

definition service_editFile :: "env \<Rightarrow> string \<Rightarrow> jsval \<Rightarrow> fsys \<Rightarrow> tool_outcome \<times> fsys" where
  "service_editFile env vault args fs =
     (case get_prop args ''file_path'' of
        Inl e \<Rightarrow> (Thrown e, fs)
      | Inr fp \<Rightarrow>
     (case and_then (to_string env (js_nullish_or fp (JStr []))) (service_resolvePath env vault) of
        Inl e \<Rightarrow> (Thrown e, fs)
      | Inr filePath \<Rightarrow>
     (case to_string env (js_nullish_or (js_prop args ''old_string'') (JStr [])) of
        Inl e \<Rightarrow> (Thrown e, fs)
      | Inr oldString \<Rightarrow>
     (case to_string env (js_nullish_or (js_prop args ''new_string'') (JStr [])) of
        Inl e \<Rightarrow> (Thrown e, fs)
      | Inr newString \<Rightarrow>
     (case fs_readFile fs filePath of
        Inl e \<Rightarrow> (Thrown e, fs)
      | Inr content \<Rightarrow>
     (let occurrences = int (length (js_split oldString content)) - 1 in
      if occurrences = 0
      then (Result \<lparr>result_content = ''old_string not found in file'', isError = True\<rparr>, fs)
      else if occurrences > 1
      then (Result \<lparr>result_content =
                      ''old_string found '' @ string_of_int occurrences @ '' times (must be unique)'',
                    isError = True\<rparr>, fs)
      else case fs_writeFile fs filePath (js_replace oldString newString content) of
        Inl e \<Rightarrow> (Thrown e, fs)
      | Inr fs1 \<Rightarrow>
     (case to_string env fp of
        Inl e \<Rightarrow> (Thrown e, fs1)
      | Inr shown \<Rightarrow>
          (Result \<lparr>result_content = ''File edited: '' @ shown, isError = False\<rparr>, fs1))))))))"

definition BLOCKED_COMMANDS :: "string list" where
  "BLOCKED_COMMANDS = [''rm -rf /'', ''rm -rf ~'', ''mkfs'', ''dd if='', '':(){ :|:& };:'']"

definition BASH_TIMEOUT_MS :: int where
  "BASH_TIMEOUT_MS = 30000"

definition MAX_OUTPUT_BYTES :: int where
  "MAX_OUTPUT_BYTES = 1048576"

text \<open>The callback of \<^verbatim>\<open>exec\<close> in \<^verbatim>\<open>bash\<close>.\<close>

definition service_bash_callback :: "proc_result \<Rightarrow> tool_outcome" where
  "service_bash_callback r =
     (case proc_err r of
        Some err \<Rightarrow>
          (let output = or_else (proc_stderr r) (or_else (proc_stdout r) (err_message err)) in
           Result \<lparr>result_content = js_slice 0 10000 output, isError = True\<rparr>)
      | None \<Rightarrow>
          (let output = proc_stdout r @ (if proc_stderr r \<noteq> [] then newline @ proc_stderr r else []) in
           Result \<lparr>result_content = or_else (js_slice 0 10000 output) ''(no output)'', isError = False\<rparr>))"

definition service_bash :: "env \<Rightarrow> string \<Rightarrow> jsval \<Rightarrow> fsys \<Rightarrow> tool_outcome \<times> fsys" where
  "service_bash env vault args fs =
     (case get_prop args ''command'' of
        Inl e \<Rightarrow> (Thrown e, fs)
      | Inr c \<Rightarrow>
     (case to_string env (js_nullish_or c (JStr [])) of
        Inl e \<Rightarrow> (Thrown e, fs)
      | Inr command \<Rightarrow>
     (case List.find (\<lambda>blocked. js_includes blocked command) BLOCKED_COMMANDS of
        Some blocked \<Rightarrow>
          (Result \<lparr>result_content = ''Blocked command: '' @ blocked, isError = True\<rparr>, fs)
      | None \<Rightarrow>
     (case env_exec env command vault BASH_TIMEOUT_MS MAX_OUTPUT_BYTES fs of
        (Inl e, fs1) \<Rightarrow> (Thrown e, fs1)
      | (Inr r, fs1) \<Rightarrow> (service_bash_callback r, fs1)))))"

text \<open>The command line of \<^verbatim>\<open>grep\<close> and the callback of its \<^verbatim>\<open>exec\<close>.\<close>

definition service_grep_command :: "string \<Rightarrow> string \<Rightarrow> string \<Rightarrow> string \<Rightarrow> string" where
  "service_grep_command contextFlag include pattern searchPath =
     ''grep -rn '' @ contextFlag @ '' '' @ include @ '' -E '' @ dquote
     @ replace_all_literal dquote ([CHR 0x5C] @ dquote) pattern @ dquote
     @ '' '' @ dquote @ searchPath @ dquote @ '' 2>/dev/null | head -200''"

definition service_grep_callback :: "proc_result \<Rightarrow> tool_outcome" where
  "service_grep_callback r =
     (if proc_err r \<noteq> None \<and> proc_stdout r = []
      then Result \<lparr>result_content = ''No matches found'', isError = False\<rparr>
      else Result \<lparr>result_content = or_else (js_slice 0 10000 (proc_stdout r)) ''No matches found'',
                   isError = False\<rparr>)"

definition service_grep :: "env \<Rightarrow> string \<Rightarrow> jsval \<Rightarrow> fsys \<Rightarrow> tool_outcome \<times> fsys" where
  "service_grep env vault args fs =
     (case get_prop args ''pattern'' of
        Inl e \<Rightarrow> (Thrown e, fs)
      | Inr pat \<Rightarrow>
     (case to_string env (js_nullish_or pat (JStr [])) of
        Inl e \<Rightarrow> (Thrown e, fs)
      | Inr pattern \<Rightarrow>
     (case (if js_truthy (js_prop args ''path'')
            then and_then (to_string env (js_prop args ''path'')) (service_resolvePath env vault)
            else Inr vault) of
        Inl e \<Rightarrow> (Thrown e, fs)
      | Inr searchPath \<Rightarrow>
     (case (if js_truthy (js_prop args ''include'')
            then and_then (to_string env (js_prop args ''include''))
                   (\<lambda>shown. Inr (''--include='' @ dquote @ shown @ dquote))
            else Inr []) of
        Inl e \<Rightarrow> (Thrown e, fs)
      | Inr include \<Rightarrow>
     (case to_number env (js_nullish_or (js_prop args ''context_lines'') (JNum 0)) of
        Inl e \<Rightarrow> (Thrown e, fs)
      | Inr contextLines \<Rightarrow>
     (let contextFlag = (case contextLines of
                           Some n \<Rightarrow> (if n > 0 then ''-C '' @ number_to_string (env_number_to_string env) n
                                      else [])
                         | None \<Rightarrow> [])
      in case env_exec env (service_grep_command contextFlag include pattern searchPath) vault
              BASH_TIMEOUT_MS MAX_OUTPUT_BYTES fs of
        (Inl e, fs1) \<Rightarrow> (Thrown e, fs1)
      | (Inr r, fs1) \<Rightarrow> (service_grep_callback r, fs1)))))))"

text \<open>The command line of \<^verbatim>\<open>glob\<close> and the callback of its \<^verbatim>\<open>exec\<close>.\<close>

definition service_glob_command :: "string \<Rightarrow> string \<Rightarrow> string" where
  "service_glob_command searchPath pattern =
     ''find '' @ dquote @ searchPath @ dquote @ '' -path '' @ dquote @ ''*/'' @ pattern
     @ dquote @ '' -o -name '' @ dquote @ pattern @ dquote @ '' 2>/dev/null | head -200''"

definition service_glob_callback :: "env \<Rightarrow> string \<Rightarrow> proc_result \<Rightarrow> tool_outcome" where
  "service_glob_callback env vault r =
     (if proc_err r \<noteq> None \<and> proc_stdout r = []
      then Result \<lparr>result_content = ''No files found'', isError = False\<rparr>
      else
        (let files = js_join newline
                       (map (path_relative (env_cwd env) vault)
                          (filter (\<lambda>f. f \<noteq> []) (js_split newline (proc_stdout r))))
         in Result \<lparr>result_content = or_else files ''No files found'', isError = False\<rparr>))"

definition service_glob :: "env \<Rightarrow> string \<Rightarrow> jsval \<Rightarrow> fsys \<Rightarrow> tool_outcome \<times> fsys" where
  "service_glob env vault args fs =
     (case get_prop args ''pattern'' of
        Inl e \<Rightarrow> (Thrown e, fs)
      | Inr pat \<Rightarrow>
     (case to_string env (js_nullish_or pat (JStr [])) of
        Inl e \<Rightarrow> (Thrown e, fs)
      | Inr pattern \<Rightarrow>
     (case (if js_truthy (js_prop args ''path'')
            then and_then (to_string env (js_prop args ''path'')) (service_resolvePath env vault)
            else Inr vault) of
        Inl e \<Rightarrow> (Thrown e, fs)
      | Inr searchPath \<Rightarrow>
     (case env_exec env (service_glob_command searchPath pattern) vault BASH_TIMEOUT_MS
             MAX_OUTPUT_BYTES fs of
        (Inl e, fs1) \<Rightarrow> (Thrown e, fs1)
      | (Inr r, fs1) \<Rightarrow> (service_glob_callback env vault r, fs1)))))"

definition service_ls :: "env \<Rightarrow> string \<Rightarrow> jsval \<Rightarrow> fsys \<Rightarrow> tool_outcome \<times> fsys" where
  "service_ls env vault args fs =
     (case get_prop args ''path'' of
        Inl e \<Rightarrow> (Thrown e, fs)
      | Inr p \<Rightarrow>
     (case (if js_truthy p then and_then (to_string env p) (service_resolvePath env vault)
            else Inr vault) of
        Inl e \<Rightarrow> (Thrown e, fs)
      | Inr dirPath \<Rightarrow>
     (case fs_readdir fs dirPath of
        Inl e \<Rightarrow> (Thrown e, fs)
      | Inr entries \<Rightarrow>
          (let dirs = map (\<lambda>e. ent_name e @ ''/'') (filter ent_isDirectory entries);
               files = map ent_name (filter (\<lambda>e. \<not> ent_isDirectory e) entries)
           in (Result \<lparr>result_content =
                         or_else (js_join newline (js_sort_by code_unit_compare dirs
                                                   @ js_sort_by code_unit_compare files))
                           ''(empty directory)'',
                       isError = False\<rparr>, fs)))))"

definition service_execute ::
  "tool_names \<Rightarrow> env \<Rightarrow> string \<Rightarrow> string \<Rightarrow> jsval \<Rightarrow> fsys \<Rightarrow> tool_outcome \<times> fsys" where
  "service_execute names env vault toolName args fs =
     catch_thrown
       (if toolName = name_READ names then service_readFile env vault args fs
        else if toolName = name_WRITE names then service_writeFile env vault args fs
        else if toolName = name_EDIT names then service_editFile env vault args fs
        else if toolName = name_BASH names then service_bash env vault args fs
        else if toolName = name_GREP names then service_grep env vault args fs
        else if toolName = name_GLOB names then service_glob env vault args fs
        else if toolName = name_LS names then service_ls env vault args fs
        else (Result \<lparr>result_content = ''Unknown tool: '' @ toolName, isError = True\<rparr>, fs))"

section \<open>Round accumulator\<close>

subsection \<open>\<^verbatim>\<open>AgentLoop.processRound\<close>: the map \<^verbatim>\<open>toolCalls\<close>\<close>

text \<open>
  A JavaScript \<^verbatim>\<open>Map<number, _>\<close> is the list of its entries in insertion order;
  \<^const>\<open>AList.update\<close> is \<^verbatim>\<open>Map.set\<close> (an existing key keeps its place, a new one goes last),
  \<^const>\<open>map_of\<close> is \<^verbatim>\<open>Map.get\<close>.
\<close>

type_synonym tool_call_map = "(int \<times> tool_call) list"

text \<open>The body of \<^verbatim>\<open>for (const tc of delta.tool_calls)\<close>: the new map and the callbacks made.\<close>

definition plugin_fragment :: "tool_call_delta \<Rightarrow> tool_call_map \<Rightarrow> tool_call_map \<times> event list" where
  "plugin_fragment tc m =
     (let e0 = (case map_of m (tc_index tc) of
                  None \<Rightarrow> \<lparr>call_id = nullish_or (tc_id tc) [], call_name = [], call_arguments = []\<rparr>
                | Some e \<Rightarrow> e);
          e1 = (if truthy (tc_id tc) then e0\<lparr>call_id := nullish_or (tc_id tc) []\<rparr> else e0);
          e2 = (if truthy (tc_name tc) then e1\<lparr>call_name := nullish_or (tc_name tc) []\<rparr> else e1);
          ev2 = (if truthy (tc_name tc) then [ToolCallStart (call_id e2) (call_name e2)] else []);
          e3 = (if truthy (tc_arguments tc)
                then e2\<lparr>call_arguments := call_arguments e2 @ nullish_or (tc_arguments tc) []\<rparr>
                else e2);
          ev3 = (if truthy (tc_arguments tc) then [ToolCallInput (call_id e3) (call_arguments e3)] else [])
      in (AList.update (tc_index tc) e3 m, ev2 @ ev3))"

fun plugin_fragments :: "tool_call_delta list \<Rightarrow> tool_call_map \<Rightarrow> tool_call_map \<times> event list" where
  "plugin_fragments [] m = (m, [])"
| "plugin_fragments (tc # tcs) m =
     (let (m1, ev1) = plugin_fragment tc m; (m2, ev2) = plugin_fragments tcs m1 in (m2, ev1 @ ev2))"

text \<open>
  \<^verbatim>\<open>assistantMsg.tool_calls\<close>: set only when the map is not empty, to the map's values in
  insertion order (\<^verbatim>\<open>Array.from(toolCalls.values())\<close>).
\<close>

definition plugin_tool_calls :: "tool_call_map \<Rightarrow> tool_call list option" where
  "plugin_tool_calls m = (if m = [] then None else Some (map snd m))"

subsection \<open>\<^verbatim>\<open>CopilotService.streamOneRound\<close>: the map \<^verbatim>\<open>toolCallsMap\<close>\<close>

text \<open>The id made up for a call that comes without one: \<^verbatim>\<open>`tc_${tc.index}_${Date.now()}`\<close>.\<close>

definition synth_id :: "int \<Rightarrow> int \<Rightarrow> string" where
  "synth_id idx now = ''tc_'' @ string_of_int idx @ ''_'' @ string_of_int now"

text \<open>
  The body of \<^verbatim>\<open>for (const tc of delta.tool_calls)\<close>. \<open>clock k\<close> is what the \<open>k\<close>-th call of
  \<^verbatim>\<open>Date.now()\<close> returns; the count of calls made so far is threaded through.
\<close>

definition service_fragment ::
  "(nat \<Rightarrow> int) \<Rightarrow> tool_call_delta \<Rightarrow> tool_call_map \<times> nat \<Rightarrow> tool_call_map \<times> nat" where
  "service_fragment clock tc s =
     (let m = fst s; n = snd s in
      case map_of m (tc_index tc) of
        None \<Rightarrow>
          (case tc_id tc of
             Some i \<Rightarrow>
               (AList.update (tc_index tc)
                  \<lparr>call_id = i, call_name = nullish_or (tc_name tc) [],
                   call_arguments = nullish_or (tc_arguments tc) []\<rparr> m, n)
           | None \<Rightarrow>
               (AList.update (tc_index tc)
                  \<lparr>call_id = synth_id (tc_index tc) (clock n), call_name = nullish_or (tc_name tc) [],
                   call_arguments = nullish_or (tc_arguments tc) []\<rparr> m, Suc n))
      | Some e \<Rightarrow>
          (let e1 = (if truthy (tc_arguments tc)
                     then e\<lparr>call_arguments := call_arguments e @ nullish_or (tc_arguments tc) []\<rparr>
                     else e);
               e2 = (if truthy (tc_name tc) then e1\<lparr>call_name := nullish_or (tc_name tc) []\<rparr> else e1)
           in (AList.update (tc_index tc) e2 m, n)))"

fun service_fragments ::
  "(nat \<Rightarrow> int) \<Rightarrow> tool_call_delta list \<Rightarrow> tool_call_map \<times> nat \<Rightarrow> tool_call_map \<times> nat" where
  "service_fragments clock [] s = s"
| "service_fragments clock (tc # tcs) s = service_fragments clock tcs (service_fragment clock tc s)"

text \<open>
  \<^verbatim>\<open>Array.from(toolCallsMap.entries()).sort(([a], [b]) => a - b).map(([, tc]) => tc)\<close>: the keys of
  a map are distinct, so the comparator orders the entries by ascending key.
\<close>

definition service_sorted_entries :: "tool_call_map \<Rightarrow> tool_call_map" where
  "service_sorted_entries m = sort_key fst m"

definition service_tool_calls :: "tool_call_map \<Rightarrow> tool_call list" where
  "service_tool_calls m = map snd (service_sorted_entries m)"


section \<open>The world the loops act on\<close>

text \<open>
  The calls a loop makes to the token provider and to the chat endpoint, in order:
  \<^verbatim>\<open>isTokenExpired\<close> with its answer, \<^verbatim>\<open>fetchCopilotToken\<close> with the secret, \<^verbatim>\<open>streamChat\<close> and
  \<^verbatim>\<open>sendChat\<close> with the bearer token.
\<close>

datatype call = ExpiryCheck bool | TokenFetch string | ChatRequest string | ChatOnce string

record world =
  w_fs :: fsys
  w_clock_reads :: nat
  w_abort_looks :: nat
  w_calls :: "call list"
  w_events :: "event list"

definition emit :: "event list \<Rightarrow> world \<Rightarrow> world" where
  "emit es w = w\<lparr>w_events := w_events w @ es\<rparr>"

definition record_call :: "call \<Rightarrow> world \<Rightarrow> world" where
  "record_call c w = w\<lparr>w_calls := w_calls w @ [c]\<rparr>"

text \<open>Reading \<^verbatim>\<open>signal.aborted\<close>.\<close>

definition look_aborted :: "env \<Rightarrow> world \<Rightarrow> bool \<times> world" where
  "look_aborted env w =
     ((case env_cancel_after env of None \<Rightarrow> False | Some k \<Rightarrow> k \<le> w_abort_looks w),
      w\<lparr>w_abort_looks := Suc (w_abort_looks w)\<rparr>)"

text \<open>
  \<^verbatim>\<open>isTokenExpired(expiresAt)\<close>: \<^verbatim>\<open>Date.now() / 1000 >= expiresAt - 300\<close>, the clock being in
  milliseconds.
\<close>

definition isTokenExpired :: "env \<Rightarrow> int \<Rightarrow> world \<Rightarrow> bool \<times> world" where
  "isTokenExpired env expiresAt w =
     (let expired = (env_clock env (w_clock_reads w) \<ge> (expiresAt - 300) * 1000)
      in (expired, record_call (ExpiryCheck expired) (w\<lparr>w_clock_reads := Suc (w_clock_reads w)\<rparr>)))"

definition fetchCopilotToken :: "env \<Rightarrow> string \<Rightarrow> world \<Rightarrow> (exn + copilot_token) \<times> world" where
  "fetchCopilotToken env pat w = (env_fetch_token env (length (w_calls w)) pat, record_call (TokenFetch pat) w)"

definition MAX_TOOL_ROUNDS :: nat where
  "MAX_TOOL_ROUNDS = 25"

section \<open>\<^verbatim>\<open>AgentLoop\<close> (copilot-plugin)\<close>

definition SYSTEM_PROMPT :: string where
  "SYSTEM_PROMPT =
     ''You are Copilot Agent, an AI assistant embedded in Obsidian with full access to the user''
     @ [CHR 0x27] @ ''s vault. You can read, write, and edit files, run bash commands, search for content, and explore the file system.''
     @ newline @ newline
     @ ''Key behaviors:'' @ newline
     @ ''- Read files before modifying them. Understand existing code/content before making changes.'' @ newline
     @ ''- Use edit_file for targeted changes to existing files. Use write_file only for new files or full rewrites.'' @ newline
     @ ''- When searching for code, use grep with appropriate patterns. Use glob to discover file structure.'' @ newline
     @ ''- For bash commands, use appropriate tools (git, npm, etc.) and keep commands focused.'' @ newline
     @ ''- Be concise in your responses. Show your work through tool use, not lengthy explanations.'' @ newline
     @ ''- If a task requires multiple steps, execute them sequentially using the tools available.'' @ newline
     @ ''- Always operate within the vault directory. Never access files outside the vault.''"

definition system_message :: chat_message where
  "system_message =
     \<lparr>msg_role = RoleSystem, msg_content = Some SYSTEM_PROMPT, msg_tool_calls = None,
      msg_tool_call_id = None\<rparr>"

text \<open>The fields of an \<^verbatim>\<open>AgentLoop\<close>; \<open>ag_vault\<close> is the \<^verbatim>\<open>vaultPath\<close> of its executor.\<close>

record agent =
  ag_messages :: "chat_message list"
  ag_token :: "copilot_token option"
  ag_model :: string
  ag_pat :: string
  ag_vault :: string

definition new_AgentLoop :: "string \<Rightarrow> string \<Rightarrow> string \<Rightarrow> agent" where
  "new_AgentLoop vaultPath pat model =
     \<lparr>ag_messages = [system_message], ag_token = None, ag_model = model, ag_pat = pat,
      ag_vault = vaultPath\<rparr>"

definition setModel :: "string \<Rightarrow> agent \<Rightarrow> agent" where
  "setModel model ag = ag\<lparr>ag_model := model\<rparr>"

definition getMessages :: "agent \<Rightarrow> chat_message list" where
  "getMessages ag = ag_messages ag"

definition clearHistory :: "agent \<Rightarrow> agent" where
  "clearHistory ag = ag\<lparr>ag_messages := [system_message]\<rparr>"

definition ensureToken :: "env \<Rightarrow> agent \<times> world \<Rightarrow> (exn + string) \<times> agent \<times> world" where
  "ensureToken env s =
     (let ag = fst s; w = snd s;
          (stale, w1) = (case ag_token ag of
                           None \<Rightarrow> (True, w)
                         | Some t \<Rightarrow> isTokenExpired env (tok_expiresAt t) w)
      in if stale
         then (case fetchCopilotToken env (ag_pat ag) w1 of
                 (Inl e, w2) \<Rightarrow> (Inl e, ag, w2)
               | (Inr t, w2) \<Rightarrow> (Inr (tok_token t), ag\<lparr>ag_token := Some t\<rparr>, w2))
         else (Inr (case ag_token ag of None \<Rightarrow> [] | Some t \<Rightarrow> tok_token t), ag, w1))"

subsection \<open>\<^verbatim>\<open>processRound\<close>\<close>

record round_acc =
  acc_text :: string
  acc_calls :: tool_call_map

text \<open>The body of \<^verbatim>\<open>for (const choice of chunk.choices)\<close> for a choice that has its delta.\<close>

definition plugin_delta :: "stream_delta \<Rightarrow> round_acc \<times> world \<Rightarrow> round_acc \<times> world" where
  "plugin_delta delta s =
     (let acc = fst s; w = snd s;
          (acc1, w1) = (if truthy (delta_content delta)
                        then (acc\<lparr>acc_text := acc_text acc @ nullish_or (delta_content delta) []\<rparr>,
                              emit [TextDelta (nullish_or (delta_content delta) [])] w)
                        else (acc, w))
      in case delta_tool_calls delta of
           None \<Rightarrow> (acc1, w1)
         | Some tcs \<Rightarrow>
             (let (m, evs) = plugin_fragments tcs (acc_calls acc1)
              in (acc1\<lparr>acc_calls := m\<rparr>, emit evs w1)))"

text \<open>
  The choices of one chunk; \<open>False\<close> when reading the chunk throws a \<^verbatim>\<open>TypeError\<close> (the chunk
  has no \<^verbatim>\<open>choices\<close> to iterate, or a choice has no \<^verbatim>\<open>delta\<close>).
\<close>

fun plugin_choices :: "stream_delta option list \<Rightarrow> round_acc \<times> world \<Rightarrow> bool \<times> round_acc \<times> world" where
  "plugin_choices [] s = (True, s)"
| "plugin_choices (None # cs) s = (False, s)"
| "plugin_choices (Some d # cs) s = plugin_choices cs (plugin_delta d s)"

definition plugin_chunk :: "wire_chunk \<Rightarrow> round_acc \<times> world \<Rightarrow> bool \<times> round_acc \<times> world" where
  "plugin_chunk chunk s = (case chunk of None \<Rightarrow> (False, s) | Some cs \<Rightarrow> plugin_choices cs s)"

text \<open>
  How the \<^verbatim>\<open>for await\<close> over \<^verbatim>\<open>streamChat\<close> ends: the generator is exhausted, the loop body
  returns \<^verbatim>\<open>null\<close> on the abort signal, or an exception is thrown.
\<close>

datatype stream_end = StreamEnded | StreamAborted | StreamThrew

text \<open>
  The lines of the response, each read by \<^verbatim>\<open>streamChat\<close> (which looks at the abort signal
  before each line and returns when it is set, and returns at the sentinel) and, for a
  data record, handed to the loop body of \<^verbatim>\<open>processRound\<close> (which looks at the signal again).
\<close>

fun plugin_stream :: "env \<Rightarrow> sse_line list \<Rightarrow> round_acc \<times> world \<Rightarrow> stream_end \<times> round_acc \<times> world" where
  "plugin_stream env [] s = (StreamEnded, s)"
| "plugin_stream env (line # rest) s =
     (let (gen_aborted, w1) = look_aborted env (snd s) in
      if gen_aborted then (StreamEnded, fst s, w1)
      else case line of
        SkipLine \<Rightarrow> plugin_stream env rest (fst s, w1)
      | DoneLine \<Rightarrow> (StreamEnded, fst s, w1)
      | DataLine chunk \<Rightarrow>
          (let (body_aborted, w2) = look_aborted env w1 in
           if body_aborted then (StreamAborted, fst s, w2)
           else case plugin_chunk chunk (fst s, w2) of
             (False, s3) \<Rightarrow> (StreamThrew, s3)
           | (True, s3) \<Rightarrow> plugin_stream env rest s3))"

text \<open>
  \<^verbatim>\<open>streamChat\<close> from its request on: \<^verbatim>\<open>requestUrl\<close> throws, or the signal is looked at once
  and the lines are read.
\<close>

definition plugin_streamChat ::
  "env \<Rightarrow> string \<Rightarrow> agent \<Rightarrow> round_acc \<times> world \<Rightarrow> stream_end \<times> round_acc \<times> world" where
  "plugin_streamChat env token ag s =
     (let w = snd s;
          w0 = record_call (ChatRequest token) w
      in case env_chat_text env (length (w_calls w)) token (ag_model ag) (ag_messages ag) of
           Inl e \<Rightarrow> (StreamThrew, fst s, w0)
         | Inr ls \<Rightarrow>
             (let (aborted, w1) = look_aborted env w0 in
              if aborted then (StreamEnded, fst s, w1) else plugin_stream env ls (fst s, w1)))"

text \<open>The \<^verbatim>\<open>catch\<close> of \<^verbatim>\<open>processRound\<close>, after \<^verbatim>\<open>sendChat\<close> has returned \<open>response\<close>.\<close>

fun fallback_calls :: "nat \<Rightarrow> tool_call list \<Rightarrow> tool_call_map \<times> event list \<Rightarrow> tool_call_map \<times> event list" where
  "fallback_calls i [] s = s"
| "fallback_calls i (tc # tcs) s =
     fallback_calls (Suc i) tcs
       (AList.update (int i) tc (fst s),
        snd s @ [ToolCallStart (call_id tc) (call_name tc), ToolCallInput (call_id tc) (call_arguments tc)])"

definition plugin_fallback :: "chat_message \<Rightarrow> round_acc \<times> world \<Rightarrow> round_acc \<times> world" where
  "plugin_fallback response s =
     (let acc = fst s; w = snd s;
          (acc1, w1) = (if truthy (msg_content response)
                        then (acc\<lparr>acc_text := nullish_or (msg_content response) []\<rparr>,
                              emit [TextDelta (nullish_or (msg_content response) [])] w)
                        else (acc, w))
      in case msg_tool_calls response of
           None \<Rightarrow> (acc1, w1)
         | Some tcs \<Rightarrow>
             (let (m, evs) = fallback_calls 0 tcs (acc_calls acc1, [])
              in (acc1\<lparr>acc_calls := m\<rparr>, emit evs w1)))"

text \<open>
  \<^verbatim>\<open>processRound\<close>: \<open>Inl\<close> when it throws (the fallback request failed), \<open>Inr None\<close> when it
  returns \<^verbatim>\<open>null\<close>, \<open>Inr (Some msg)\<close> when it returns the assistant message it has pushed.
\<close>

definition plugin_finish_round :: "round_acc \<Rightarrow> agent \<times> world \<Rightarrow> (exn + chat_message option) \<times> agent \<times> world" where
  "plugin_finish_round acc s =
     (let ag = fst s; w = snd s;
          w1 = (if acc_text acc \<noteq> [] then emit [TextDone (acc_text acc)] w else w);
          assistantMsg =
            \<lparr>msg_role = RoleAssistant,
             msg_content = (if acc_text acc \<noteq> [] then Some (acc_text acc) else None),
             msg_tool_calls = plugin_tool_calls (acc_calls acc),
             msg_tool_call_id = None\<rparr>
      in (Inr (Some assistantMsg), ag\<lparr>ag_messages := ag_messages ag @ [assistantMsg]\<rparr>, w1))"

definition plugin_processRound ::
  "env \<Rightarrow> string \<Rightarrow> agent \<times> world \<Rightarrow> (exn + chat_message option) \<times> agent \<times> world" where
  "plugin_processRound env token s =
     (let ag = fst s in
      case plugin_streamChat env token ag (\<lparr>acc_text = [], acc_calls = []\<rparr>, snd s) of
        (StreamAborted, acc, w1) \<Rightarrow> (Inr None, ag, w1)
      | (StreamEnded, acc, w1) \<Rightarrow> plugin_finish_round acc (ag, w1)
      | (StreamThrew, acc, w1) \<Rightarrow>
          (case env_chat_once env (length (w_calls w1)) token (ag_model ag) (ag_messages ag) of
             Inl e \<Rightarrow> (Inl e, ag, record_call (ChatOnce token) w1)
           | Inr response \<Rightarrow>
               (let (acc2, w2) = plugin_fallback response (acc, record_call (ChatOnce token) w1)
                in plugin_finish_round acc2 (ag, w2))))"

subsection \<open>\<^verbatim>\<open>executeToolCalls\<close>\<close>

datatype send_end = SendReturned | SendHangs

text \<open>
  The tool calls of one round, in order; the loop stops at the abort signal. \<open>SendHangs\<close>
  when a call of \<^verbatim>\<open>execute\<close> never settles.
\<close>

fun plugin_executeToolCalls ::
  "env \<Rightarrow> string \<Rightarrow> tool_call list \<Rightarrow> chat_message list \<times> world \<Rightarrow> send_end \<times> chat_message list \<times> world" where
  "plugin_executeToolCalls env vault [] s = (SendReturned, s)"
| "plugin_executeToolCalls env vault (tc # tcs) s =
     (let (aborted, w1) = look_aborted env (snd s) in
      if aborted then (SendReturned, fst s, w1)
      else
        (let input = (case env_json_parse env (call_arguments tc) of None \<Rightarrow> JObj [] | Some v \<Rightarrow> v) in
         case plugin_execute env vault (call_name tc) input (w_fs w1) of
           (Result r, fs1) \<Rightarrow>
             plugin_executeToolCalls env vault tcs
               (fst s @ [\<lparr>msg_role = RoleTool, msg_content = Some (result_content r),
                          msg_tool_calls = None, msg_tool_call_id = Some (call_id tc)\<rparr>],
                emit [ToolCallComplete (call_id tc) (call_name tc) input r] (w1\<lparr>w_fs := fs1\<rparr>))
         | (_, fs1) \<Rightarrow> (SendHangs, fst s, w1\<lparr>w_fs := fs1\<rparr>)))"

subsection \<open>\<^verbatim>\<open>send\<close>\<close>

definition max_rounds_notice :: string where
  "max_rounds_notice =
     newline @ newline
     @ ''*Reached maximum tool use rounds. Please continue the conversation to proceed.*''"

text \<open>The \<^verbatim>\<open>catch\<close> of \<^verbatim>\<open>send\<close>.\<close>

definition plugin_catch :: "env \<Rightarrow> exn \<Rightarrow> agent \<times> world \<Rightarrow> send_end \<times> agent \<times> world" where
  "plugin_catch env e s =
     (let (aborted, w1) = look_aborted env (snd s) in
      (SendReturned, fst s, if aborted then w1 else emit [ErrorEvent e] w1))"

text \<open>The \<^verbatim>\<open>while (rounds < MAX_TOOL_ROUNDS)\<close> loop and what follows it.\<close>

function plugin_rounds :: "env \<Rightarrow> string \<Rightarrow> nat \<Rightarrow> agent \<times> world \<Rightarrow> send_end \<times> agent \<times> world" where
  "plugin_rounds env token rounds s =
     (if rounds < MAX_TOOL_ROUNDS
      then
        (let (aborted, w1) = look_aborted env (snd s) in
         if aborted then (SendReturned, fst s, w1)
         else case plugin_processRound env token (fst s, w1) of
           (Inl e, s2) \<Rightarrow> plugin_catch env e s2
         | (Inr None, s2) \<Rightarrow> (SendReturned, s2)
         | (Inr (Some assistantMessage), ag2, w2) \<Rightarrow>
             (case msg_tool_calls assistantMessage of
                None \<Rightarrow> (SendReturned, ag2, emit [Done] w2)
              | Some tcs \<Rightarrow>
                  if tcs = [] then (SendReturned, ag2, emit [Done] w2)
                  else case plugin_executeToolCalls env (ag_vault ag2) tcs ([], w2) of
                    (SendHangs, toolResults, w3) \<Rightarrow> (SendHangs, ag2, w3)
                  | (SendReturned, toolResults, w3) \<Rightarrow>
                      (let (aborted2, w4) = look_aborted env w3 in
                       if aborted2 then (SendReturned, ag2, w4)
                       else plugin_rounds env token (Suc rounds)
                              (ag2\<lparr>ag_messages := ag_messages ag2 @ toolResults\<rparr>, w4))))
      else (SendReturned, fst s, emit [TextDelta max_rounds_notice, Done] (snd s)))"
  by pat_completeness auto
termination
  by (relation "measure (\<lambda>(env, token, rounds, s). MAX_TOOL_ROUNDS - rounds)") auto

declare plugin_rounds.simps [simp del]

text \<open>
  \<^verbatim>\<open>send\<close>: a new abort controller (no look has been taken at its signal), the user message,
  the token, the rounds.
\<close>

definition send :: "env \<Rightarrow> string \<Rightarrow> agent \<times> world \<Rightarrow> send_end \<times> agent \<times> world" where
  "send env userMessage s =
     (let ag1 = (fst s)\<lparr>ag_messages := ag_messages (fst s)
                   @ [\<lparr>msg_role = RoleUser, msg_content = Some userMessage, msg_tool_calls = None,
                       msg_tool_call_id = None\<rparr>]\<rparr>;
          w1 = (snd s)\<lparr>w_abort_looks := 0\<rparr>
      in case ensureToken env (ag1, w1) of
           (Inl e, s2) \<Rightarrow> plugin_catch env e s2
         | (Inr token, s2) \<Rightarrow> plugin_rounds env token 0 s2)"


section \<open>\<^verbatim>\<open>CopilotService\<close> (the Copilot provider)\<close>

text \<open>
  The fields of a \<^verbatim>\<open>CopilotService\<close> that \<^verbatim>\<open>query\<close> uses. \<^verbatim>\<open>cancel()\<close> aborts the controller and
  sets the field \<^verbatim>\<open>abortController\<close> to \<^verbatim>\<open>null\<close> at once, so at any moment the field is a
  controller that is not aborted (\<open>Some False\<close>) or \<^verbatim>\<open>null\<close> (\<open>None\<close>).
\<close>

record service =
  sv_pat :: string
  sv_copilotToken :: "copilot_token option"
  sv_selectedModel :: string
  sv_vault :: string
  sv_names :: tool_names

text \<open>\<^verbatim>\<open>this.abortController\<close> now: \<^verbatim>\<open>null\<close> once \<^verbatim>\<open>cancel()\<close> has been called.\<close>

definition abortController_now :: "env \<Rightarrow> world \<Rightarrow> bool option \<times> world" where
  "abortController_now env w =
     (let (cancelled, w1) = look_aborted env w in (if cancelled then None else Some False, w1))"

text \<open>\<^verbatim>\<open>ctl?.signal.aborted\<close> as a condition.\<close>

definition signal_aborted :: "bool option \<Rightarrow> bool" where
  "signal_aborted ctl = (case ctl of None \<Rightarrow> False | Some a \<Rightarrow> a)"

definition ensureCopilotToken :: "env \<Rightarrow> service \<times> world \<Rightarrow> (exn + string) \<times> service \<times> world" where
  "ensureCopilotToken env s =
     (let sv = fst s; w = snd s;
          (fresh, w1) = (case sv_copilotToken sv of
                           None \<Rightarrow> (False, w)
                         | Some t \<Rightarrow> (let (expired, w') = isTokenExpired env (tok_expiresAt t) w
                                      in (\<not> expired, w')))
      in if fresh
         then (Inr (case sv_copilotToken sv of None \<Rightarrow> [] | Some t \<Rightarrow> tok_token t), sv, w1)
         else (case fetchCopilotToken env (sv_pat sv) w1 of
                 (Inl e, w2) \<Rightarrow> (Inl e, sv, w2)
               | (Inr t, w2) \<Rightarrow> (Inr (tok_token t), sv\<lparr>sv_copilotToken := Some t\<rparr>, w2)))"

subsection \<open>\<^verbatim>\<open>streamOneRound\<close>\<close>

text \<open>
  The body of the \<^verbatim>\<open>for await\<close> for one chunk: only the first choice is read; \<open>Some e\<close> when
  it throws (the choice has no \<^verbatim>\<open>delta\<close>).
\<close>

definition service_chunk :: "env \<Rightarrow> wire_chunk \<Rightarrow> round_acc \<times> world \<Rightarrow> exn option \<times> round_acc \<times> world" where
  "service_chunk env chunk s =
     (case chunk of
        None \<Rightarrow> (None, s)
      | Some [] \<Rightarrow> (None, s)
      | Some (None # _) \<Rightarrow> (Some ''Cannot read properties of undefined (reading 'content')'', s)
      | Some (Some delta # _) \<Rightarrow>
          (let acc = fst s; w = snd s;
               (acc1, w1) = (if truthy (delta_content delta)
                             then (acc\<lparr>acc_text := acc_text acc @ nullish_or (delta_content delta) []\<rparr>,
                                   emit [TextDelta (nullish_or (delta_content delta) [])] w)
                             else (acc, w))
           in case delta_tool_calls delta of
                None \<Rightarrow> (None, acc1, w1)
              | Some tcs \<Rightarrow>
                  (let (m, n) = service_fragments (env_clock env) tcs (acc_calls acc1, w_clock_reads w1)
                   in (None, acc1\<lparr>acc_calls := m\<rparr>, w1\<lparr>w_clock_reads := n\<rparr>))))"

text \<open>The lines one \<^verbatim>\<open>reader.read()\<close> completes; the sentinel is skipped like a blank line.\<close>

fun service_lines :: "env \<Rightarrow> sse_line list \<Rightarrow> round_acc \<times> world \<Rightarrow> exn option \<times> round_acc \<times> world" where
  "service_lines env [] s = (None, s)"
| "service_lines env (SkipLine # rest) s = service_lines env rest s"
| "service_lines env (DoneLine # rest) s = service_lines env rest s"
| "service_lines env (DataLine chunk # rest) s =
     (case service_chunk env chunk s of
        (Some e, s1) \<Rightarrow> (Some e, s1)
      | (None, s1) \<Rightarrow> service_lines env rest s1)"

text \<open>
  The reads of the body. With a signal attached, a read that is pending when \<^verbatim>\<open>cancel()\<close> is
  called rejects; the last read reports the end of the body or fails with \<open>final\<close>.
\<close>

fun service_reads ::
  "env \<Rightarrow> bool \<Rightarrow> sse_line list list \<Rightarrow> exn option \<Rightarrow> round_acc \<times> world \<Rightarrow> exn option \<times> round_acc \<times> world" where
  "service_reads env has_signal [] final s =
     (let (aborted, w1) = (if has_signal then look_aborted env (snd s) else (False, snd s)) in
      if aborted then (Some (env_abort_message env), fst s, w1) else (final, fst s, w1))"
| "service_reads env has_signal (ls # rest) final s =
     (let (aborted, w1) = (if has_signal then look_aborted env (snd s) else (False, snd s)) in
      if aborted then (Some (env_abort_message env), fst s, w1)
      else case service_lines env ls (fst s, w1) of
        (Some e, s1) \<Rightarrow> (Some e, s1)
      | (None, s1) \<Rightarrow> service_reads env has_signal rest final s1)"

text \<open>
  \<^verbatim>\<open>streamChat\<close> as \<^verbatim>\<open>streamOneRound\<close> calls it: the signal is that of the controller the field
  holds at the call, none when the field is \<^verbatim>\<open>null\<close>.
\<close>

definition service_streamChat ::
  "env \<Rightarrow> string \<Rightarrow> service \<Rightarrow> chat_message list \<Rightarrow> round_acc \<times> world \<Rightarrow> exn option \<times> round_acc \<times> world" where
  "service_streamChat env token sv messages s =
     (let (ctl, w0) = abortController_now env (snd s);
          has_signal = (ctl \<noteq> None);
          w1 = record_call (ChatRequest token) w0;
          response = env_chat_fetch env (length (w_calls w0)) token (sv_selectedModel sv) messages;
          (aborted, w2) = (if has_signal then look_aborted env w1 else (False, w1))
      in if aborted then (Some (env_abort_message env), fst s, w2)
         else case response of
           Inl e \<Rightarrow> (Some e, fst s, w2)
         | Inr (reads, final) \<Rightarrow> service_reads env has_signal reads final (fst s, w2))"

record round_result =
  rr_textContent :: string
  rr_toolCalls :: "tool_call list"
  rr_error :: "string option"
  rr_aborted :: bool

definition streamOneRound :: "env \<Rightarrow> string \<Rightarrow> service \<Rightarrow> chat_message list \<Rightarrow> world \<Rightarrow> round_result \<times> world" where
  "streamOneRound env token sv messages w =
     (case service_streamChat env token sv messages (\<lparr>acc_text = [], acc_calls = []\<rparr>, w) of
        (Some e, acc, w1) \<Rightarrow>
          (let (ctl, w2) = abortController_now env w1 in
           if signal_aborted ctl
           then (\<lparr>rr_textContent = acc_text acc, rr_toolCalls = [], rr_error = None, rr_aborted = True\<rparr>, w2)
           else (\<lparr>rr_textContent = acc_text acc, rr_toolCalls = [], rr_error = Some e,
                  rr_aborted = False\<rparr>, w2))
      | (None, acc, w1) \<Rightarrow>
          (\<lparr>rr_textContent = acc_text acc, rr_toolCalls = service_tool_calls (acc_calls acc),
            rr_error = None, rr_aborted = False\<rparr>, w1))"

subsection \<open>\<^verbatim>\<open>query\<close>\<close>

text \<open>The tool calls of one round: \<^verbatim>\<open>tool_use\<close>, \<^verbatim>\<open>execute\<close>, \<^verbatim>\<open>tool_result\<close>, the tool message.\<close>

fun service_tools ::
  "env \<Rightarrow> service \<Rightarrow> tool_call list \<Rightarrow> chat_message list \<times> world \<Rightarrow> send_end \<times> chat_message list \<times> world" where
  "service_tools env sv [] s = (SendReturned, s)"
| "service_tools env sv (tc # tcs) s =
     (let args = (case env_json_parse env (call_arguments tc) of None \<Rightarrow> JObj [] | Some v \<Rightarrow> v);
          w1 = emit [ToolUse (call_id tc) (call_name tc) args] (snd s)
      in case service_execute (sv_names sv) env (sv_vault sv) (call_name tc) args (w_fs w1) of
           (Result r, fs1) \<Rightarrow>
             service_tools env sv tcs
               (fst s @ [\<lparr>msg_role = RoleTool, msg_content = Some (result_content r),
                          msg_tool_calls = None, msg_tool_call_id = Some (call_id tc)\<rparr>],
                emit [ToolResult (call_id tc) (result_content r) (isError r)] (w1\<lparr>w_fs := fs1\<rparr>))
         | (_, fs1) \<Rightarrow> (SendHangs, fst s, w1\<lparr>w_fs := fs1\<rparr>))"

text \<open>
  The \<^verbatim>\<open>catch\<close> of \<^verbatim>\<open>query\<close>: the error is yielded unless the controller the field holds is
  aborted.
\<close>

definition service_catch :: "env \<Rightarrow> exn \<Rightarrow> world \<Rightarrow> world" where
  "service_catch env e w =
     (let (ctl, w1) = abortController_now env w in
      if \<not> signal_aborted ctl then emit [ErrorEvent e] w1 else w1)"

text \<open>The \<^verbatim>\<open>for (let round = 0; round < MAX_TOOL_ROUNDS; round++)\<close> loop and what follows it.\<close>

function service_rounds ::
  "env \<Rightarrow> string \<Rightarrow> nat \<Rightarrow> service \<times> chat_message list \<times> world \<Rightarrow> send_end \<times> service \<times> chat_message list \<times> world" where
  "service_rounds env token round s =
     (let sv = fst s; messages = fst (snd s); w = snd (snd s) in
      if round < MAX_TOOL_ROUNDS
      then
        (case streamOneRound env token sv messages w of (roundResult, w1) \<Rightarrow>
         if rr_aborted roundResult then (SendReturned, sv, messages, w1)
         else case rr_error roundResult of
           Some e \<Rightarrow> (SendReturned, sv, messages, emit [ErrorEvent e] w1)
         | None \<Rightarrow>
             if rr_toolCalls roundResult = [] then (SendReturned, sv, messages, emit [Done] w1)
             else
               (let messages1 = messages
                      @ [\<lparr>msg_role = RoleAssistant,
                          msg_content = (if rr_textContent roundResult \<noteq> []
                                         then Some (rr_textContent roundResult) else None),
                          msg_tool_calls = Some (rr_toolCalls roundResult),
                          msg_tool_call_id = None\<rparr>]
                in case service_tools env sv (rr_toolCalls roundResult) (messages1, w1) of
                  (SendHangs, messages2, w2) \<Rightarrow> (SendHangs, sv, messages2, w2)
                | (SendReturned, messages2, w2) \<Rightarrow>
                    (case sv_copilotToken sv of
                       None \<Rightarrow> service_rounds env token (Suc round) (sv, messages2, w2)
                     | Some t \<Rightarrow>
                         (case isTokenExpired env (tok_expiresAt t) w2 of
                            (False, w3) \<Rightarrow> service_rounds env token (Suc round) (sv, messages2, w3)
                          | (True, w3) \<Rightarrow>
                              (case ensureCopilotToken env (sv, w3) of
                                 (Inl e, sv4, w4) \<Rightarrow> (SendReturned, sv4, messages2, service_catch env e w4)
                               | (Inr token', sv4, w4) \<Rightarrow>
                                   service_rounds env token' (Suc round) (sv4, messages2, w4))))))
      else (SendReturned, sv, messages,
            emit [ErrorEvent (''Max tool rounds ('' @ string_of_int (int MAX_TOOL_ROUNDS) @ '') exceeded'')] w))"
  by pat_completeness auto
termination
  by (relation "measure (\<lambda>(env, token, round, s). MAX_TOOL_ROUNDS - round)") auto

declare service_rounds.simps [simp del]

text \<open>
  \<^verbatim>\<open>query\<close>. \<open>messages\<close> is the list \<^verbatim>\<open>buildMessages\<close> returns (the system prompt, the caller's
  history converted, the user message); the type of the caller's history is declared in a
  module that is not among the sources. A new abort controller is made before the rounds.
\<close>

definition query :: "env \<Rightarrow> chat_message list \<Rightarrow> service \<times> world \<Rightarrow> send_end \<times> service \<times> chat_message list \<times> world" where
  "query env messages s =
     (let sv = fst s; w = snd s in
      if sv_pat sv = []
      then (SendReturned, sv, messages,
            emit [ErrorEvent ''Not authenticated with GitHub Copilot. Please sign in via Settings.''] w)
      else case ensureCopilotToken env (sv, w) of
        (Inl e, sv1, w1) \<Rightarrow> (SendReturned, sv1, messages, emit [ErrorEvent (''Copilot auth failed: '' @ e)] w1)
      | (Inr token, sv1, w1) \<Rightarrow> service_rounds env token 0 (sv1, messages, w1\<lparr>w_abort_looks := 0\<rparr>))"


section \<open>Notions the properties are stated with\<close>

subsection \<open>What a stream declares about a tool call\<close>

text \<open>The fragments of a stream that carry the positional index \<open>i\<close>, in order.\<close>

definition index_fragments :: "int \<Rightarrow> tool_call_delta list \<Rightarrow> tool_call_delta list" where
  "index_fragments i frs = filter (\<lambda>tc. tc_index tc = i) frs"

text \<open>The full arguments string of index \<open>i\<close>: its slices, concatenated.\<close>

definition declared_arguments :: "int \<Rightarrow> tool_call_delta list \<Rightarrow> string" where
  "declared_arguments i frs = concat (map (\<lambda>tc. nullish_or (tc_arguments tc) []) (index_fragments i frs))"

text \<open>The last value of a list of optional strings that is present and not empty.\<close>

definition last_truthy :: "string option list \<Rightarrow> string" where
  "last_truthy xs = (case filter truthy (rev xs) of [] \<Rightarrow> [] | x # _ \<Rightarrow> nullish_or x [])"

text \<open>The name of index \<open>i\<close>: the last one revealed.\<close>

definition declared_name :: "int \<Rightarrow> tool_call_delta list \<Rightarrow> string" where
  "declared_name i frs = last_truthy (map tc_name (index_fragments i frs))"



text \<open>The id \<^verbatim>\<open>processRound\<close> ends with for index \<open>i\<close>: the last one revealed, else empty.\<close>

definition plugin_final_id :: "int \<Rightarrow> tool_call_delta list \<Rightarrow> string" where
  "plugin_final_id i frs = last_truthy (map tc_id (index_fragments i frs))"

text \<open>
  The id \<^verbatim>\<open>streamOneRound\<close> ends with for index \<open>i\<close>: that of the first fragment of \<open>i\<close>, or the
  id made up when that fragment arrived (\<open>n0\<close> calls of \<^verbatim>\<open>Date.now()\<close> were made before the
  stream).
\<close>

definition service_final_id :: "(nat \<Rightarrow> int) \<Rightarrow> nat \<Rightarrow> int \<Rightarrow> tool_call_delta list \<Rightarrow> string" where
  "service_final_id clock n0 i frs =
     (case index_fragments i frs of
        [] \<Rightarrow> []
      | x # _ \<Rightarrow>
          (case tc_id x of
             Some v \<Rightarrow> v
           | None \<Rightarrow>
               synth_id i
                 (clock (snd (service_fragments clock (takeWhile (\<lambda>tc. tc_index tc \<noteq> i) frs) ([], n0))))))"

text \<open>The order in which the positional indices first appear.\<close>

definition first_appearances :: "tool_call_delta list \<Rightarrow> int list" where
  "first_appearances frs = rev (remdups (rev (map tc_index frs)))"

subsection \<open>The fragments a round reads\<close>

definition delta_fragments :: "stream_delta \<Rightarrow> tool_call_delta list" where
  "delta_fragments d = (case delta_tool_calls d of None \<Rightarrow> [] | Some tcs \<Rightarrow> tcs)"

text \<open>\<^verbatim>\<open>processRound\<close> reads every choice of every data record up to the sentinel.\<close>

definition plugin_chunk_fragments :: "wire_chunk \<Rightarrow> tool_call_delta list" where
  "plugin_chunk_fragments chunk =
     (case chunk of
        None \<Rightarrow> []
      | Some cs \<Rightarrow> concat (map (\<lambda>c. case c of None \<Rightarrow> [] | Some d \<Rightarrow> delta_fragments d) cs))"

fun plugin_stream_fragments :: "sse_line list \<Rightarrow> tool_call_delta list" where
  "plugin_stream_fragments [] = []"
| "plugin_stream_fragments (SkipLine # rest) = plugin_stream_fragments rest"
| "plugin_stream_fragments (DoneLine # rest) = []"
| "plugin_stream_fragments (DataLine chunk # rest) = plugin_chunk_fragments chunk @ plugin_stream_fragments rest"

text \<open>\<^verbatim>\<open>streamOneRound\<close> reads the first choice of every data record.\<close>

definition service_chunk_fragments :: "wire_chunk \<Rightarrow> tool_call_delta list" where
  "service_chunk_fragments chunk =
     (case chunk of Some (Some d # _) \<Rightarrow> delta_fragments d | _ \<Rightarrow> [])"

fun service_line_fragments :: "sse_line list \<Rightarrow> tool_call_delta list" where
  "service_line_fragments [] = []"
| "service_line_fragments (DataLine chunk # rest) = service_chunk_fragments chunk @ service_line_fragments rest"
| "service_line_fragments (_ # rest) = service_line_fragments rest"

definition service_stream_fragments :: "sse_line list list \<Rightarrow> tool_call_delta list" where
  "service_stream_fragments reads = concat (map service_line_fragments reads)"

subsection \<open>Streams whose records have the shape the reader expects\<close>

text \<open>
  For \<^verbatim>\<open>processRound\<close>: every data record up to the sentinel has its \<^verbatim>\<open>choices\<close>, and every
  choice its \<^verbatim>\<open>delta\<close>.
\<close>

definition well_shaped_chunk :: "wire_chunk \<Rightarrow> bool" where
  "well_shaped_chunk chunk = (case chunk of None \<Rightarrow> False | Some cs \<Rightarrow> list_all (\<lambda>c. c \<noteq> None) cs)"

fun well_shaped :: "sse_line list \<Rightarrow> bool" where
  "well_shaped [] = True"
| "well_shaped (SkipLine # rest) = well_shaped rest"
| "well_shaped (DoneLine # rest) = True"
| "well_shaped (DataLine chunk # rest) = (well_shaped_chunk chunk \<and> well_shaped rest)"

text \<open>The tool-call descriptor that a stream declares for index \<open>i\<close>, with a given id.\<close>

definition declared_call :: "string \<Rightarrow> int \<Rightarrow> tool_call_delta list \<Rightarrow> tool_call" where
  "declared_call ident i frs =
     \<lparr>call_id = ident, call_name = declared_name i frs, call_arguments = declared_arguments i frs\<rparr>"

subsection \<open>Runs of the loops\<close>

text \<open>
  The states of an \<^verbatim>\<open>AgentLoop\<close> that its operations can reach from the constructor, each
  \<^verbatim>\<open>send\<close> in any environment and any world (\<^verbatim>\<open>cancel\<close> acts through the environment,
  \<^verbatim>\<open>getMessages\<close> returns a copy).
\<close>

inductive reachable :: "agent \<Rightarrow> bool" where
  reach_new: "reachable (new_AgentLoop vaultPath pat model)"
| reach_setModel: "reachable ag \<Longrightarrow> reachable (setModel model ag)"
| reach_clearHistory: "reachable ag \<Longrightarrow> reachable (clearHistory ag)"
| reach_send: "reachable ag \<Longrightarrow> reachable (fst (snd (send env userMessage (ag, w))))"

text \<open>
  An \<^verbatim>\<open>AgentLoop\<close> after a step: the messages it had are still there, in place, followed by
  those the step has pushed; vault, model and secret are the same.
\<close>

definition history_grows :: "agent \<Rightarrow> agent \<Rightarrow> bool" where
  "history_grows ag ag' =
     (prefix (ag_messages ag) (ag_messages ag') \<and> ag_vault ag' = ag_vault ag \<and>
      ag_model ag' = ag_model ag \<and> ag_pat ag' = ag_pat ag)"

text \<open>What a step adds to the world: calls and events, after those already there.\<close>

definition grows :: "world \<Rightarrow> world \<Rightarrow> call list \<Rightarrow> event list \<Rightarrow> bool" where
  "grows w w' cs es = (w_calls w' = w_calls w @ cs \<and> w_events w' = w_events w @ es)"

text \<open>The events that end a \<^verbatim>\<open>send\<close> for its caller: completion and error.\<close>

fun is_final_event :: "event \<Rightarrow> bool" where
  "is_final_event Done = True"
| "is_final_event (ErrorEvent m) = True"
| "is_final_event _ = False"

definition no_final_event :: "event list \<Rightarrow> bool" where
  "no_final_event es = (filter is_final_event es = [])"

fun is_chat_request :: "call \<Rightarrow> bool" where
  "is_chat_request (ChatRequest token) = True"
| "is_chat_request _ = False"

text \<open>The number of rounds in a run: its requests to the streaming chat endpoint.\<close>

definition rounds_run :: "call list \<Rightarrow> nat" where
  "rounds_run cs = length (filter is_chat_request cs)"

text \<open>
  A model that asks for at least one tool call in every round, answering every request
  with a body of the expected shape.
\<close>

definition plugin_model_always_calls :: "env \<Rightarrow> bool" where
  "plugin_model_always_calls env =
     (\<forall>n token model messages. \<exists>ls.
        env_chat_text env n token model messages = Inr ls \<and> well_shaped ls \<and>
        plugin_stream_fragments ls \<noteq> [])"

definition service_well_shaped :: "sse_line list list \<Rightarrow> bool" where
  "service_well_shaped reads =
     list_all (list_all (\<lambda>line. case line of DataLine (Some (None # _)) \<Rightarrow> False | _ \<Rightarrow> True)) reads"

definition service_model_always_calls :: "env \<Rightarrow> bool" where
  "service_model_always_calls env =
     (\<forall>n token model messages. \<exists>reads.
        env_chat_fetch env n token model messages = Inr (reads, None) \<and> service_well_shaped reads \<and>
        service_stream_fragments reads \<noteq> [])"

definition token_always_granted :: "env \<Rightarrow> string \<Rightarrow> bool" where
  "token_always_granted env pat = (\<forall>n. \<exists>t. env_fetch_token env n pat = Inr t)"

text \<open>
  A sequence of calls in which every chat request comes after the credential was judged
  not expired, or was fetched, since the chat request before it. \<open>ok\<close> says whether that
  has happened so far.
\<close>

fun refreshed :: "bool \<Rightarrow> call list \<Rightarrow> bool" where
  "refreshed ok [] = True"
| "refreshed ok (ExpiryCheck expired # cs) = refreshed (\<not> expired) cs"
| "refreshed ok (TokenFetch pat # cs) = refreshed True cs"
| "refreshed ok (ChatRequest token # cs) = (ok \<and> refreshed False cs)"
| "refreshed ok (ChatOnce token # cs) = refreshed ok cs"

text \<open>The calls of a run that talk to the chat endpoint with the token \<open>token\<close>.\<close>

fun is_chat_with :: "string \<Rightarrow> call \<Rightarrow> bool" where
  "is_chat_with token (ChatRequest t) = (t = token)"
| "is_chat_with token (ChatOnce t) = (t = token)"
| "is_chat_with token _ = False"

fun is_token_call :: "call \<Rightarrow> bool" where
  "is_token_call (ExpiryCheck expired) = True"
| "is_token_call (TokenFetch pat) = True"
| "is_token_call _ = False"

subsection \<open>Sample streams and a sample environment\<close>

text \<open>A fragment, a data record with tool-call fragments only, and one with text only.\<close>

definition fragment :: "int \<Rightarrow> string option \<Rightarrow> string option \<Rightarrow> string option \<Rightarrow> tool_call_delta" where
  "fragment i ident nm args = \<lparr>tc_index = i, tc_id = ident, tc_name = nm, tc_arguments = args\<rparr>"

definition tool_line :: "tool_call_delta list \<Rightarrow> sse_line" where
  "tool_line tcs = DataLine (Some [Some \<lparr>delta_content = None, delta_tool_calls = Some tcs\<rparr>])"

definition text_line :: "string \<Rightarrow> sse_line" where
  "text_line t = DataLine (Some [Some \<lparr>delta_content = Some t, delta_tool_calls = None\<rparr>])"

definition empty_acc :: round_acc where
  "empty_acc = \<lparr>acc_text = [], acc_calls = []\<rparr>"

text \<open>A world in which nothing has happened yet, on a file system that holds the vault.\<close>

definition world0 :: world where
  "world0 = \<lparr>w_fs = [(''/vault'', Dir)], w_clock_reads = 0, w_abort_looks = 0, w_calls = [],
             w_events = []\<rparr>"

text \<open>
  An environment in which nothing fails and nobody cancels: every request is answered by an
  empty body, every command prints nothing, the \<open>k\<close>-th reading of the clock is \<open>k\<close>, a
  token never expires. The samples below change one field or two.
\<close>

definition quiet_env :: env where
  "quiet_env =
     \<lparr>env_cwd = ''/'',
      env_number_of_string = (\<lambda>s. None),
      env_number_to_string = (\<lambda>n. ''1e+21''),
      env_localeCompare = code_unit_compare,
      env_regexp_remove_all = (\<lambda>src. Inr (\<lambda>s. s)),
      env_exec = (\<lambda>cmd cwd timeout maxBuffer fs.
                    (Inr \<lparr>proc_err = None, proc_stdout = [], proc_stderr = []\<rparr>, fs)),
      env_clock = (\<lambda>k. int k),
      env_cancel_after = None,
      env_fetch_token = (\<lambda>n pat. Inr \<lparr>tok_token = ''t1'', tok_expiresAt = 1000000\<rparr>),
      env_chat_text = (\<lambda>n token model messages. Inr []),
      env_chat_once = (\<lambda>n token model messages. Inl ''offline''),
      env_chat_fetch = (\<lambda>n token model messages. Inr ([], None)),
      env_json_parse = (\<lambda>s. None),
      env_abort_message = ''The user aborted a request.''\<rparr>"

definition plugin_env_with :: "sse_line list \<Rightarrow> env" where
  "plugin_env_with ls = quiet_env\<lparr>env_chat_text := (\<lambda>n token model messages. Inr ls)\<rparr>"

definition service_env_with :: "sse_line list list \<Rightarrow> env" where
  "service_env_with reads = quiet_env\<lparr>env_chat_fetch := (\<lambda>n token model messages. Inr (reads, None))\<rparr>"

definition agent0 :: agent where
  "agent0 = new_AgentLoop ''/vault'' ''pat'' ''gpt-4o''"

definition sample_names :: tool_names where
  "sample_names =
     \<lparr>name_READ = ''read_file'', name_WRITE = ''write_file'', name_EDIT = ''edit_file'',
      name_BASH = ''bash'', name_GREP = ''grep'', name_GLOB = ''glob'', name_LS = ''list_directory''\<rparr>"

definition service0 :: service where
  "service0 =
     \<lparr>sv_pat = ''pat'', sv_copilotToken = None, sv_selectedModel = ''gpt-4o'', sv_vault = ''/vault'',
      sv_names = sample_names\<rparr>"

text \<open>Two tool calls whose fragments arrive with index 1 before index 0.\<close>

definition reversed_lines :: "sse_line list" where
  "reversed_lines =
     [tool_line [fragment 1 (Some ''call_b'') (Some ''grep'') (Some ''{}'')],
      tool_line [fragment 0 (Some ''call_a'') (Some ''glob'') (Some ''{}'')]]"



text \<open>A tool call whose id arrives in its second fragment, and two that never get one.\<close>

definition late_id_lines :: "sse_line list" where
  "late_id_lines =
     [tool_line [fragment 0 None (Some ''grep'') None],
      tool_line [fragment 0 (Some ''call_9'') None (Some ''{}'')]]"

definition no_id_lines :: "sse_line list" where
  "no_id_lines =
     [tool_line [fragment 0 None (Some ''grep'') (Some ''{}''),
                 fragment 1 None (Some ''glob'') (Some ''{}'')]]"

subsection \<open>Sample runs of the loops\<close>

text \<open>A model that answers with two pieces of text.\<close>

definition hello_env :: env where
  "hello_env = quiet_env
     \<lparr>env_chat_text := (\<lambda>n token model messages. Inr [text_line ''Hello'', text_line '' world'']),
      env_chat_fetch := (\<lambda>n token model messages.
                           Inr ([[text_line ''Hello''], [text_line '' world'']], None))\<rparr>"

text \<open>
  The same, with \<^verbatim>\<open>cancel()\<close> called once the signal has been read \<open>k\<close> times. \<^verbatim>\<open>send\<close> reads it
  at the top of the loop (reading 0), \<^verbatim>\<open>streamChat\<close> when \<^verbatim>\<open>requestUrl\<close> has returned (reading
  1) and before each line (readings 2 and 4), the body of the \<^verbatim>\<open>for await\<close> at each chunk
  (readings 3 and 5). In \<^verbatim>\<open>query\<close> the controller is read when \<^verbatim>\<open>streamChat\<close> is called (reading
  0), and its signal decides when \<^verbatim>\<open>fetch\<close> returns (reading 1) and at each read of the body
  (readings 2 and 3).
\<close>

definition cancel_env :: "nat \<Rightarrow> env" where
  "cancel_env k = hello_env\<lparr>env_cancel_after := Some k\<rparr>"

definition user_message :: "string \<Rightarrow> chat_message" where
  "user_message t =
     \<lparr>msg_role = RoleUser, msg_content = Some t, msg_tool_calls = None, msg_tool_call_id = None\<rparr>"

definition assistant_text :: "string option \<Rightarrow> chat_message" where
  "assistant_text t =
     \<lparr>msg_role = RoleAssistant, msg_content = t, msg_tool_calls = None, msg_tool_call_id = None\<rparr>"

text \<open>A record that asks for one call of a tool neither executor knows.\<close>

definition noop_line :: sse_line where
  "noop_line = tool_line [fragment 0 (Some ''call_a'') (Some ''noop'') (Some ''{}'')]"

text \<open>
  A token that runs out during a run. The clock reads 0 ms at its first reading and
  1000000 ms at every later one; an \<^verbatim>\<open>AgentLoop\<close> and a \<^verbatim>\<open>CopilotService\<close> hold the token \<^verbatim>\<open>t1\<close>
  from an earlier run, which is good until second 1000, that is, judged expired from
  second 700 on; the token provider hands out \<^verbatim>\<open>t2\<close>, good until second 2000. The model asks
  for a tool call in its first answer and answers with text afterwards (\<open>n\<close> is the number of
  calls made before the request).
\<close>

definition aging_env :: env where
  "aging_env = quiet_env
     \<lparr>env_clock := (\<lambda>k. if k = 0 then 0 else 1000000),
      env_fetch_token := (\<lambda>n pat. Inr \<lparr>tok_token = ''t2'', tok_expiresAt = 2000\<rparr>),
      env_chat_text := (\<lambda>n token model messages.
                          if n \<le> 1 then Inr [noop_line] else Inr [text_line ''ok'']),
      env_chat_fetch := (\<lambda>n token model messages.
                           if n \<le> 1 then Inr ([[noop_line]], None) else Inr ([[text_line ''ok'']], None))\<rparr>"

definition agent1 :: agent where
  "agent1 = agent0\<lparr>ag_token := Some \<lparr>tok_token = ''t1'', tok_expiresAt = 1000\<rparr>\<rparr>"

definition service1 :: service where
  "service1 = service0\<lparr>sv_copilotToken := Some \<lparr>tok_token = ''t1'', tok_expiresAt = 1000\<rparr>\<rparr>"

text \<open>A model that asks for a tool call in every answer.\<close>

definition busy_env :: env where
  "busy_env = quiet_env
     \<lparr>env_chat_text := (\<lambda>n token model messages. Inr [noop_line]),
      env_chat_fetch := (\<lambda>n token model messages. Inr ([[noop_line]], None))\<rparr>"

subsection \<open>Staying within the root\<close>

text \<open>
  A path stays within a root when, segment by segment, it starts with the root's segments:
  the root itself or something below it.
\<close>

definition path_within :: "string \<Rightarrow> string \<Rightarrow> bool" where
  "path_within root p = prefix (path_segments root) (path_segments p)"

text \<open>
  The path that a path-taking tool of \<^verbatim>\<open>ToolExecutor\<close> resolves, as far as the arguments give
  one: \<^verbatim>\<open>file_path\<close> for the file tools; \<^verbatim>\<open>path\<close>, or the vault itself by default, for grep,
  glob and list.
\<close>

definition string_arg :: "env \<Rightarrow> jsval \<Rightarrow> string \<Rightarrow> string" where
  "string_arg env args key = (case to_string env (js_prop args key) of Inl e \<Rightarrow> [] | Inr s \<Rightarrow> s)"

definition plugin_path_argument :: "env \<Rightarrow> string \<Rightarrow> jsval \<Rightarrow> string" where
  "plugin_path_argument env toolName args =
     (if toolName = TOOL_READ \<or> toolName = TOOL_WRITE \<or> toolName = TOOL_EDIT
      then string_arg env args ''file_path''
      else if js_truthy (js_prop args ''path'') then string_arg env args ''path'' else ''.'')"

text \<open>Arguments none of whose properties throws when it is converted to a string.\<close>

definition strings_ok :: "env \<Rightarrow> jsval \<Rightarrow> bool" where
  "strings_ok env args = (\<forall>key. \<exists>s. to_string env (js_prop args key) = Inr s)"

definition plugin_path_tools :: "string list" where
  "plugin_path_tools = [TOOL_READ, TOOL_WRITE, TOOL_EDIT, TOOL_GREP, TOOL_GLOB, TOOL_LS]"

text \<open>
  A vault whose path is not a pattern: the constructor of \<^verbatim>\<open>RegExp\<close> rejects the two plus
  signs of \<^verbatim>\<open>/home/u/C++/\<close> (nothing to repeat). A search in it prints one match.
\<close>

definition plus_vault :: string where
  "plus_vault = ''/home/u/C++''"

definition plus_env :: env where
  "plus_env =
     quiet_env
       \<lparr>env_regexp_remove_all :=
          (\<lambda>src. if src = ''/home/u/C++/''
                  then Inl ''Invalid regular expression: Nothing to repeat''
                  else Inr (\<lambda>s. s)),
        env_exec :=
          (\<lambda>cmd cwd timeout maxBuffer fs.
             (Inr \<lparr>proc_err = None, proc_stdout = ''/home/u/C++/n.md:1:a'' @ newline,
                   proc_stderr = []\<rparr>, fs))\<rparr>"

section \<open>Properties\<close>


subsection \<open>Helpers: the maps of the round accumulators\<close>

lemma look_aborted_never:
  "env_cancel_after env = None \<Longrightarrow>
     look_aborted env w = (False, w\<lparr>w_abort_looks := Suc (w_abort_looks w)\<rparr>)"
  by (simp add: look_aborted_def)

lemma plugin_fragments_append:
  "plugin_fragments (xs @ ys) m =
     (let (m1, ev1) = plugin_fragments xs m; (m2, ev2) = plugin_fragments ys m1 in (m2, ev1 @ ev2))"
  by (induction xs arbitrary: m) (simp_all add: split_def Let_def)

lemma plugin_fragments_append_fst:
  "fst (plugin_fragments (xs @ ys) m) = fst (plugin_fragments ys (fst (plugin_fragments xs m)))"
  by (simp add: plugin_fragments_append split_def Let_def)

lemma plugin_fragments_snoc:
  "fst (plugin_fragments (xs @ [tc]) m) = fst (plugin_fragment tc (fst (plugin_fragments xs m)))"
  by (simp add: plugin_fragments_append split_def Let_def)

lemma service_fragments_append:
  "service_fragments clock (xs @ ys) s = service_fragments clock ys (service_fragments clock xs s)"
  by (induction xs arbitrary: s) simp_all

lemma index_fragments_snoc:
  "index_fragments i (xs @ [x]) = index_fragments i xs @ (if tc_index x = i then [x] else [])"
  by (simp add: index_fragments_def)

lemma index_fragments_Nil_iff: "index_fragments i frs = [] \<longleftrightarrow> i \<notin> tc_index ` set frs"
  by (auto simp add: index_fragments_def filter_empty_conv)

lemma last_truthy_snoc:
  "last_truthy (xs @ [x]) = (if truthy x then nullish_or x [] else last_truthy xs)"
  by (simp add: last_truthy_def)

lemma last_truthy_Nil: "last_truthy [] = []"
  by (simp add: last_truthy_def)

lemma last_truthy_single: "last_truthy [x] = nullish_or x []"
  by (cases x) (auto simp add: last_truthy_def truthy_def nullish_or_def)

lemma takeWhile_snoc_first:
  "index_fragments i frs = [] \<Longrightarrow>
     takeWhile (\<lambda>tc. tc_index tc \<noteq> i) (frs @ [tc]) = (if tc_index tc = i then frs else frs @ [tc])"
  by (auto simp add: index_fragments_def filter_empty_conv takeWhile_append2)

lemma takeWhile_snoc_later:
  "index_fragments i frs \<noteq> [] \<Longrightarrow>
     takeWhile (\<lambda>tc. tc_index tc \<noteq> i) (frs @ [tc]) = takeWhile (\<lambda>tc. tc_index tc \<noteq> i) frs"
  by (auto simp add: index_fragments_def filter_empty_conv takeWhile_append1)

text \<open>
  What \<^verbatim>\<open>processRound\<close> holds for a positional index after a sequence of fragments: nothing
  if no fragment carried the index, else the last id and name revealed and all the slices.
\<close>

lemma plugin_lookup:
  "map_of (fst (plugin_fragments frs [])) i =
     (if index_fragments i frs = [] then None
      else Some \<lparr>call_id = plugin_final_id i frs, call_name = declared_name i frs,
                 call_arguments = declared_arguments i frs\<rparr>)"
proof (induction frs rule: rev_induct)
  case Nil
  show ?case by (simp add: index_fragments_def)
next
  case (snoc tc frs)
  show ?case
  proof (cases "tc_index tc = i")
    case False
    then show ?thesis
      using snoc
      by (simp add: plugin_fragments_snoc plugin_fragment_def Let_def update_conv'
          index_fragments_snoc declared_name_def declared_arguments_def plugin_final_id_def)
  next
    case True
    then show ?thesis
      using snoc
      by (auto simp add: plugin_fragments_snoc plugin_fragment_def Let_def update_conv'
          index_fragments_snoc declared_name_def declared_arguments_def plugin_final_id_def
          last_truthy_snoc last_truthy_Nil truthy_def nullish_or_def split: option.splits)
  qed
qed

text \<open>The same for \<^verbatim>\<open>streamOneRound\<close>; only the id differs.\<close>

lemma service_lookup:
  "map_of (fst (service_fragments clock frs ([], n0))) i =
     (if index_fragments i frs = [] then None
      else Some \<lparr>call_id = service_final_id clock n0 i frs, call_name = declared_name i frs,
                 call_arguments = declared_arguments i frs\<rparr>)"
proof (induction frs rule: rev_induct)
  case Nil
  show ?case by (simp add: index_fragments_def)
next
  case (snoc tc frs)
  obtain m n where st: "service_fragments clock frs ([], n0) = (m, n)"
    by (cases "service_fragments clock frs ([], n0)")
  show ?case
  proof (cases "tc_index tc = i")
    case False
    then show ?thesis
      using snoc st
      by (cases "index_fragments i frs = []")
         (auto simp add: service_fragments_append service_fragment_def Let_def update_conv'
          index_fragments_snoc declared_name_def declared_arguments_def service_final_id_def
          takeWhile_snoc_first takeWhile_snoc_later split: option.splits list.splits)
  next
    case True
    show ?thesis
    proof (cases "index_fragments i frs = []")
      case True
      with \<open>tc_index tc = i\<close> snoc st show ?thesis
        by (auto simp add: service_fragments_append service_fragment_def Let_def update_conv'
            index_fragments_snoc declared_name_def declared_arguments_def service_final_id_def
            takeWhile_snoc_first last_truthy_single split: option.splits)
    next
      case False
      with \<open>tc_index tc = i\<close> snoc st show ?thesis
        by (auto simp add: service_fragments_append service_fragment_def Let_def update_conv'
            index_fragments_snoc declared_name_def declared_arguments_def service_final_id_def
            takeWhile_snoc_later last_truthy_snoc truthy_def nullish_or_def
            split: option.splits list.splits)
    qed
  qed
qed

lemma plugin_keys_set: "fst ` set (fst (plugin_fragments frs [])) = tc_index ` set frs"
proof -
  have "dom (map_of (fst (plugin_fragments frs []))) = tc_index ` set frs"
    by (auto simp add: plugin_lookup dom_def index_fragments_Nil_iff)
  then show ?thesis by (simp add: dom_map_of_conv_image_fst)
qed

lemma service_keys_set: "fst ` set (fst (service_fragments clock frs ([], n0))) = tc_index ` set frs"
proof -
  have "dom (map_of (fst (service_fragments clock frs ([], n0)))) = tc_index ` set frs"
    by (auto simp add: service_lookup dom_def index_fragments_Nil_iff)
  then show ?thesis by (simp add: dom_map_of_conv_image_fst)
qed

lemma plugin_fragment_distinct:
  "distinct (map fst m) \<Longrightarrow> distinct (map fst (fst (plugin_fragment tc m)))"
  by (simp add: plugin_fragment_def Let_def distinct_update)

lemma plugin_fragments_distinct:
  "distinct (map fst m) \<Longrightarrow> distinct (map fst (fst (plugin_fragments frs m)))"
  by (induction frs arbitrary: m) (simp_all add: split_def Let_def plugin_fragment_distinct)

lemma service_fragment_distinct:
  "distinct (map fst (fst s)) \<Longrightarrow> distinct (map fst (fst (service_fragment clock tc s)))"
  by (simp add: service_fragment_def Let_def distinct_update split: option.splits)

lemma service_fragments_distinct:
  "distinct (map fst (fst s)) \<Longrightarrow> distinct (map fst (fst (service_fragments clock frs s)))"
  by (induction frs arbitrary: s) (simp_all add: service_fragment_distinct)

lemma plugin_fragment_keys:
  "map fst (fst (plugin_fragment tc m)) =
     (if tc_index tc \<in> fst ` set m then map fst m else map fst m @ [tc_index tc])"
  by (simp add: plugin_fragment_def Let_def update_keys)

text \<open>The keys of the map of \<^verbatim>\<open>processRound\<close> stand in the order of their first appearance.\<close>

lemma plugin_keys: "map fst (fst (plugin_fragments frs [])) = first_appearances frs"
proof (induction frs rule: rev_induct)
  case Nil
  show ?case by (simp add: first_appearances_def)
next
  case (snoc tc frs)
  have "fst ` set (fst (plugin_fragments frs [])) = tc_index ` set frs"
    by (rule plugin_keys_set)
  with snoc show ?case
    by (auto simp add: plugin_fragments_snoc plugin_fragment_keys first_appearances_def)
qed

subsection \<open>Helpers: the fragments a round reads\<close>

lemma plugin_delta_calls:
  "acc_calls (fst (plugin_delta d s)) = fst (plugin_fragments (delta_fragments d) (acc_calls (fst s)))"
  by (simp add: plugin_delta_def delta_fragments_def Let_def split_def split: option.splits)

lemma plugin_choices_calls:
  "plugin_choices cs s = (True, s') \<Longrightarrow>
   acc_calls (fst s') = fst (plugin_fragments (plugin_chunk_fragments (Some cs)) (acc_calls (fst s)))"
proof (induction cs s rule: plugin_choices.induct)
  case (1 s)
  then show ?case by (simp add: plugin_chunk_fragments_def)
next
  case (2 cs s)
  then show ?case by simp
next
  case (3 d cs s)
  then show ?case
    by (simp add: plugin_chunk_fragments_def plugin_fragments_append_fst plugin_delta_calls)
qed

lemma plugin_chunk_calls:
  "plugin_chunk chunk s = (True, s') \<Longrightarrow>
   acc_calls (fst s') = fst (plugin_fragments (plugin_chunk_fragments chunk) (acc_calls (fst s)))"
  by (cases chunk) (auto simp add: plugin_chunk_def plugin_choices_calls)

text \<open>
  Without a cancel, a stream that \<^verbatim>\<open>processRound\<close> reads to its end leaves the map that the
  fragments of the stream, taken one after the other, build: the chunk boundaries are gone.
\<close>

lemma plugin_stream_calls:
  "env_cancel_after env = None \<Longrightarrow> plugin_stream env ls s = (StreamEnded, acc', w') \<Longrightarrow>
   acc_calls acc' = fst (plugin_fragments (plugin_stream_fragments ls) (acc_calls (fst s)))"
proof (induction ls arbitrary: s)
  case Nil
  then show ?case by auto
next
  case (Cons line rest)
  show ?case
  proof (cases line)
    case SkipLine
    with Cons show ?thesis by (simp add: look_aborted_never)
  next
    case DoneLine
    with Cons show ?thesis by (auto simp add: look_aborted_never)
  next
    case (DataLine chunk)
    let ?w2 = "(snd s)\<lparr>w_abort_looks := Suc (Suc (w_abort_looks (snd s)))\<rparr>"
    obtain ok s3 where ch: "plugin_chunk chunk (fst s, ?w2) = (ok, s3)"
      by (cases "plugin_chunk chunk (fst s, ?w2)")
    with Cons.prems DataLine have ok: "ok" and rest: "plugin_stream env rest s3 = (StreamEnded, acc', w')"
      by (auto simp add: look_aborted_never split: if_splits bool.splits)
    from ch ok have "acc_calls (fst s3) = fst (plugin_fragments (plugin_chunk_fragments chunk) (acc_calls (fst s)))"
      using plugin_chunk_calls[of chunk "(fst s, ?w2)" s3] by simp
    with Cons.IH[OF Cons.prems(1) rest] DataLine show ?thesis
      by (simp add: plugin_fragments_append_fst)
  qed
qed

lemma service_chunk_calls:
  "service_chunk env chunk s = (None, acc', w') \<Longrightarrow>
   (acc_calls acc', w_clock_reads w') =
     service_fragments (env_clock env) (service_chunk_fragments chunk) (acc_calls (fst s), w_clock_reads (snd s))"
  by (auto simp add: service_chunk_def service_chunk_fragments_def delta_fragments_def Let_def
      split_def emit_def split: option.splits list.splits if_splits)

lemma service_lines_calls:
  "service_lines env ls s = (None, acc', w') \<Longrightarrow>
   (acc_calls acc', w_clock_reads w') =
     service_fragments (env_clock env) (service_line_fragments ls) (acc_calls (fst s), w_clock_reads (snd s))"
proof (induction ls arbitrary: s)
  case Nil
  then show ?case by auto
next
  case (Cons line rest)
  show ?case
  proof (cases line)
    case SkipLine
    with Cons show ?thesis by simp
  next
    case DoneLine
    with Cons show ?thesis by simp
  next
    case (DataLine chunk)
    obtain r acc1 w1 where ch: "service_chunk env chunk s = (r, acc1, w1)"
      by (cases "service_chunk env chunk s") auto
    with Cons.prems DataLine have r: "r = None" and rest: "service_lines env rest (acc1, w1) = (None, acc', w')"
      by (auto split: option.splits)
    from ch r have "(acc_calls acc1, w_clock_reads w1) =
        service_fragments (env_clock env) (service_chunk_fragments chunk) (acc_calls (fst s), w_clock_reads (snd s))"
      using service_chunk_calls[of env chunk s acc1 w1] by simp
    with Cons.IH[OF rest] DataLine show ?thesis
      by (simp add: service_fragments_append)
  qed
qed

text \<open>The same for the reads of \<^verbatim>\<open>streamOneRound\<close>, whether or not a read is cut short.\<close>

lemma service_reads_calls:
  "service_reads env has_signal reads final s = (None, acc', w') \<Longrightarrow>
   (acc_calls acc', w_clock_reads w') =
     service_fragments (env_clock env) (service_stream_fragments reads)
       (acc_calls (fst s), w_clock_reads (snd s))"
proof (induction reads arbitrary: s)
  case Nil
  then show ?case
    by (auto simp add: service_stream_fragments_def look_aborted_def Let_def split: if_splits)
next
  case (Cons ls rest)
  obtain ab w1 where lk: "(if has_signal then look_aborted env (snd s) else (False, snd s)) = (ab, w1)"
    by (cases "if has_signal then look_aborted env (snd s) else (False, snd s)")
  then have clk: "w_clock_reads w1 = w_clock_reads (snd s)"
    by (auto simp add: look_aborted_def split: if_splits)
  obtain r acc1 w2 where li: "service_lines env ls (fst s, w1) = (r, acc1, w2)"
    by (cases "service_lines env ls (fst s, w1)") auto
  from Cons.prems lk li have nab: "\<not> ab" and r: "r = None"
    and rest: "service_reads env has_signal rest final (acc1, w2) = (None, acc', w')"
    by (auto split: if_splits option.splits)
  from li r clk have "(acc_calls acc1, w_clock_reads w2) =
      service_fragments (env_clock env) (service_line_fragments ls) (acc_calls (fst s), w_clock_reads (snd s))"
    using service_lines_calls[of env ls "(fst s, w1)" acc1 w2] by simp
  with Cons.IH[OF rest] show ?case
    by (simp add: service_stream_fragments_def service_fragments_append)
qed


subsection \<open>Helpers: the descriptor lists of a round\<close>

lemma distinct_map_sort_key: "distinct (map f (sort_key f xs)) = distinct (map f xs)"
  by (induction xs) (simp_all add: distinct_insort_key)

lemma entries_by_keys:
  assumes "distinct (map fst m)"
  shows "m = map (\<lambda>k. (k, the (map_of m k))) (map fst m)"
proof -
  have "\<And>x. x \<in> set m \<Longrightarrow> (fst x, the (map_of m (fst x))) = x"
    using assms by auto
  then have "map (\<lambda>x. (fst x, the (map_of m (fst x)))) m = m"
    by (rule map_idI)
  then show ?thesis by (simp add: comp_def)
qed

lemma sort_key_fst_distinct:
  assumes "distinct (map fst m)"
  shows "sort_key fst m = map (\<lambda>k. (k, the (map_of m k))) (sorted_list_of_set (fst ` set m))"
proof -
  let ?xs = "sort_key fst m"
  have "set (map fst ?xs) = set (sorted_list_of_set (fst ` set m))"
    by simp
  moreover have d: "distinct (map fst ?xs)"
    using assms by (simp add: distinct_map_sort_key)
  ultimately have keys: "map fst ?xs = sorted_list_of_set (fst ` set m)"
    by (intro sorted_distinct_set_unique) simp_all
  have "map_of ?xs = map_of m"
    using assms d by (intro map_of_inject_set[THEN iffD2]) simp_all
  with entries_by_keys[OF d] keys show ?thesis by simp
qed

text \<open>
  The list \<^verbatim>\<open>processRound\<close> puts into the assistant message: one descriptor for each
  positional index, in the order of first appearance.
\<close>

lemma plugin_descriptors:
  "map snd (fst (plugin_fragments frs [])) =
     map (\<lambda>i. declared_call (plugin_final_id i frs) i frs) (first_appearances frs)"
proof -
  let ?m = "fst (plugin_fragments frs [])"
  have d: "distinct (map fst ?m)"
    by (rule plugin_fragments_distinct) simp
  have "\<And>k. k \<in> set (map fst ?m) \<Longrightarrow>
      the (map_of ?m k) = declared_call (plugin_final_id k frs) k frs"
    by (simp add: plugin_keys_set plugin_lookup index_fragments_Nil_iff declared_call_def)
  then have "map (\<lambda>k. the (map_of ?m k)) (map fst ?m) =
      map (\<lambda>k. declared_call (plugin_final_id k frs) k frs) (map fst ?m)"
    by (intro map_cong) simp_all
  moreover have "map snd ?m = map (\<lambda>k. the (map_of ?m k)) (map fst ?m)"
    using arg_cong[OF entries_by_keys[OF d], of "map snd"] by (simp add: comp_def)
  ultimately show ?thesis by (simp add: plugin_keys)
qed

text \<open>
  The list \<^verbatim>\<open>streamOneRound\<close> returns: one descriptor for each positional index, the indices
  ascending.
\<close>

lemma service_descriptors:
  "service_tool_calls (fst (service_fragments clock frs ([], n0))) =
     map (\<lambda>i. declared_call (service_final_id clock n0 i frs) i frs)
       (sorted_list_of_set (tc_index ` set frs))"
proof -
  let ?m = "fst (service_fragments clock frs ([], n0))"
  have d: "distinct (map fst ?m)"
    by (rule service_fragments_distinct) simp
  have "\<And>k. k \<in> tc_index ` set frs \<Longrightarrow>
      the (map_of ?m k) = declared_call (service_final_id clock n0 k frs) k frs"
    by (simp add: service_lookup index_fragments_Nil_iff declared_call_def)
  then have "map (\<lambda>k. the (map_of ?m k)) (sorted_list_of_set (tc_index ` set frs)) =
      map (\<lambda>k. declared_call (service_final_id clock n0 k frs) k frs)
        (sorted_list_of_set (tc_index ` set frs))"
    by (intro map_cong) simp_all
  then show ?thesis
    using sort_key_fst_distinct[OF d]
    by (simp add: service_tool_calls_def service_sorted_entries_def service_keys_set comp_def)
qed

lemma plugin_stream_ends:
  "env_cancel_after env = None \<Longrightarrow> well_shaped ls \<Longrightarrow> fst (plugin_stream env ls s) = StreamEnded"
proof (induction ls arbitrary: s)
  case Nil
  then show ?case by simp
next
  case (Cons line rest)
  show ?case
  proof (cases line)
    case SkipLine
    with Cons show ?thesis by (simp add: look_aborted_never)
  next
    case DoneLine
    with Cons show ?thesis by (simp add: look_aborted_never)
  next
    case (DataLine chunk)
    have ok: "\<And>cs st. list_all (\<lambda>c. c \<noteq> None) cs \<Longrightarrow> fst (plugin_choices cs st)"
    proof -
      fix cs :: "stream_delta option list" and st
      show "list_all (\<lambda>c. c \<noteq> None) cs \<Longrightarrow> fst (plugin_choices cs st)"
        by (induction cs st rule: plugin_choices.induct) simp_all
    qed
    from Cons.prems DataLine have "well_shaped_chunk chunk" and ws: "well_shaped rest"
      by simp_all
    then have "\<And>st. fst (plugin_chunk chunk st)"
      by (cases chunk) (simp_all add: well_shaped_chunk_def plugin_chunk_def ok)
    with Cons.IH[OF Cons.prems(1) ws] DataLine Cons.prems(1) show ?thesis
      by (simp add: look_aborted_never split_def split: bool.splits)
  qed
qed

text \<open>
  A round of \<^verbatim>\<open>processRound\<close> that nobody cancels, on a body of the expected shape: the
  stream is read to its end and the message is built from what it left.
\<close>

lemma plugin_processRound_streamed:
  assumes "env_cancel_after env = None"
    and "env_chat_text env (length (w_calls w)) token (ag_model ag) (ag_messages ag) = Inr ls"
    and "well_shaped ls"
  shows "\<exists>acc w1.
      plugin_processRound env token (ag, w) = plugin_finish_round acc (ag, w1) \<and>
      acc_calls acc = fst (plugin_fragments (plugin_stream_fragments ls) [])"
proof -
  let ?w1 = "(record_call (ChatRequest token) w)\<lparr>w_abort_looks := Suc (w_abort_looks w)\<rparr>"
  obtain e acc w2 where st: "plugin_stream env ls (\<lparr>acc_text = [], acc_calls = []\<rparr>, ?w1) = (e, acc, w2)"
    by (cases "plugin_stream env ls (\<lparr>acc_text = [], acc_calls = []\<rparr>, ?w1)") auto
  with plugin_stream_ends[OF assms(1,3), of "(\<lparr>acc_text = [], acc_calls = []\<rparr>, ?w1)"]
  have e: "e = StreamEnded" by simp
  with st have "acc_calls acc = fst (plugin_fragments (plugin_stream_fragments ls) [])"
    using plugin_stream_calls[OF assms(1), of ls "(\<lparr>acc_text = [], acc_calls = []\<rparr>, ?w1)" acc w2] by simp
  moreover have "plugin_processRound env token (ag, w) = plugin_finish_round acc (ag, w2)"
    using assms(1,2) st e
    by (simp add: plugin_processRound_def plugin_streamChat_def Let_def look_aborted_never record_call_def)
  ultimately show ?thesis by blast
qed

text \<open>A round of \<^verbatim>\<open>streamOneRound\<close> that reports no error.\<close>

lemma streamOneRound_streamed:
  assumes "env_chat_fetch env (length (w_calls w)) token (sv_selectedModel sv) messages = Inr (reads, fin)"
    and "rr_error (fst (streamOneRound env token sv messages w)) = None"
  shows "rr_toolCalls (fst (streamOneRound env token sv messages w)) =
      service_tool_calls
        (fst (service_fragments (env_clock env) (service_stream_fragments reads) ([], w_clock_reads w)))"
proof -
  obtain ctl w0 where c: "abortController_now env w = (ctl, w0)"
    by (cases "abortController_now env w")
  then have w0: "w_calls w0 = w_calls w" "w_clock_reads w0 = w_clock_reads w"
    by (auto simp add: abortController_now_def look_aborted_def Let_def)
  have na: "\<And>v. \<not> signal_aborted (fst (abortController_now env v))"
    by (simp add: abortController_now_def look_aborted_def signal_aborted_def Let_def)
  obtain r acc w1 where s: "service_streamChat env token sv messages (\<lparr>acc_text = [], acc_calls = []\<rparr>, w) = (r, acc, w1)"
    by (cases "service_streamChat env token sv messages (\<lparr>acc_text = [], acc_calls = []\<rparr>, w)") auto
  with assms(2) na[of w1] have r: "r = None"
    by (cases r) (auto simp add: streamOneRound_def split_def Let_def)
  let ?w1 = "record_call (ChatRequest token) w0"
  obtain ab w2 where lk: "(if ctl \<noteq> None then look_aborted env ?w1 else (False, ?w1)) = (ab, w2)"
    by (cases "if ctl \<noteq> None then look_aborted env ?w1 else (False, ?w1)")
  then have w2: "w_clock_reads w2 = w_clock_reads w"
    using w0 by (auto simp add: look_aborted_def record_call_def split: if_splits)
  from s r c lk assms(1) w0 have
    "service_reads env (ctl \<noteq> None) reads fin (\<lparr>acc_text = [], acc_calls = []\<rparr>, w2) = (None, acc, w1)"
    by (auto simp add: service_streamChat_def Let_def split: if_splits)
  then have "acc_calls acc =
      fst (service_fragments (env_clock env) (service_stream_fragments reads) ([], w_clock_reads w))"
    using service_reads_calls[of env "ctl \<noteq> None" reads fin "(\<lparr>acc_text = [], acc_calls = []\<rparr>, w2)" acc w1] w2
    by (metis fst_conv round_acc.select_convs(2) snd_conv)
  with s r show ?thesis
    by (simp add: streamOneRound_def)
qed


subsection \<open>Helpers: decimal rendering and made-up ids\<close>

lemma digit_char_inj: "a < 10 \<Longrightarrow> b < 10 \<Longrightarrow> digit_char a = digit_char b \<Longrightarrow> a = b"
proof -
  assume a: "a < 10" and b: "b < 10" and e: "digit_char a = digit_char b"
  have d: "distinct ''0123456789''" by simp
  from a b e show "a = b"
    unfolding digit_char_def using d nth_eq_iff_index_eq[OF d, of a b] by simp
qed

lemma digit_char_digits: "d < 10 \<Longrightarrow> digit_char d \<in> set ''0123456789''"
  unfolding digit_char_def by (rule nth_mem) simp

lemma string_of_nat_digits: "set (string_of_nat n) \<subseteq> set ''0123456789''"
proof (induction n rule: string_of_nat.induct)
  case (1 n)
  show ?case
  proof (cases "n < 10")
    case True
    then show ?thesis using digit_char_digits[of n] by (subst string_of_nat.simps) simp
  next
    case False
    have "n mod 10 < 10" by simp
    then have "digit_char (n mod 10) \<in> set ''0123456789''" by (rule digit_char_digits)
    with False 1 show ?thesis by (subst string_of_nat.simps) simp
  qed
qed

lemma string_of_nat_length: "length (string_of_nat n) = 1 \<longleftrightarrow> n < 10"
proof (cases "n < 10")
  case True
  then show ?thesis by (subst string_of_nat.simps) simp
next
  case False
  have "string_of_nat (n div 10) \<noteq> []"
    by (subst string_of_nat.simps) simp
  then have "length (string_of_nat (n div 10)) \<noteq> 0" by simp
  with False show ?thesis by (subst string_of_nat.simps) simp
qed

lemma string_of_nat_inj: "string_of_nat n = string_of_nat m \<Longrightarrow> n = m"
proof (induction n arbitrary: m rule: string_of_nat.induct)
  case (1 n)
  show ?case
  proof (cases "n < 10")
    case True
    with 1(2) have m: "m < 10"
      using string_of_nat_length[of m] string_of_nat_length[of n] by simp
    with True 1(2) have "[digit_char n] = [digit_char m]"
      by (metis string_of_nat.simps)
    with True m show ?thesis by (simp add: digit_char_inj)
  next
    case False
    with 1(2) have m: "\<not> m < 10"
      using string_of_nat_length[of m] string_of_nat_length[of n] by simp
    from False m 1(2) have
      "string_of_nat (n div 10) @ [digit_char (n mod 10)] = string_of_nat (m div 10) @ [digit_char (m mod 10)]"
      by (metis string_of_nat.simps)
    then have a: "string_of_nat (n div 10) = string_of_nat (m div 10)"
      and b: "digit_char (n mod 10) = digit_char (m mod 10)"
      by simp_all
    from 1(1)[OF False a] have "n div 10 = m div 10" .
    moreover from b have "n mod 10 = m mod 10" by (intro digit_char_inj) simp_all
    ultimately show ?thesis by (metis div_mult_mod_eq)
  qed
qed

lemma string_of_nat_nonempty: "string_of_nat n \<noteq> []"
  by (subst string_of_nat.simps) simp

lemma string_of_int_inj: "string_of_int i = string_of_int j \<Longrightarrow> i = j"
proof -
  assume e: "string_of_int i = string_of_int j"
  have nd: "\<And>n. hd (string_of_nat n) \<noteq> CHR ''-''"
  proof -
    fix n
    have "hd (string_of_nat n) \<in> set (string_of_nat n)"
      using string_of_nat_nonempty by simp
    then have "hd (string_of_nat n) \<in> set ''0123456789''"
      using string_of_nat_digits by blast
    then show "hd (string_of_nat n) \<noteq> CHR ''-''" by auto
  qed
  show "i = j"
  proof (cases "i < 0")
    case True
    show ?thesis
    proof (cases "j < 0")
      case True
      with \<open>i < 0\<close> e have "string_of_nat (nat (- i)) = string_of_nat (nat (- j))"
        by (simp add: string_of_int_def)
      then have "nat (- i) = nat (- j)" by (rule string_of_nat_inj)
      with True \<open>i < 0\<close> show ?thesis by simp
    next
      case False
      with \<open>i < 0\<close> e have "CHR ''-'' # string_of_nat (nat (- i)) = string_of_nat (nat j)"
        by (simp add: string_of_int_def)
      then have "hd (string_of_nat (nat j)) = CHR ''-''" by (metis list.sel(1))
      with nd show ?thesis by blast
    qed
  next
    case False
    show ?thesis
    proof (cases "j < 0")
      case True
      with \<open>\<not> i < 0\<close> e have "string_of_nat (nat i) = CHR ''-'' # string_of_nat (nat (- j))"
        by (simp add: string_of_int_def)
      then have "hd (string_of_nat (nat i)) = CHR ''-''" by (metis list.sel(1))
      with nd show ?thesis by blast
    next
      case False
      with \<open>\<not> i < 0\<close> e have "string_of_nat (nat i) = string_of_nat (nat j)"
        by (simp add: string_of_int_def)
      then have "nat i = nat j" by (rule string_of_nat_inj)
      with False \<open>\<not> i < 0\<close> show ?thesis by simp
    qed
  qed
qed

lemma string_of_int_no_underscore: "CHR ''_'' \<notin> set (string_of_int i)"
proof -
  have "\<And>n. CHR ''_'' \<notin> set (string_of_nat n)"
    using string_of_nat_digits by fastforce
  then show ?thesis by (simp add: string_of_int_def)
qed

lemma split_at_underscore:
  assumes "CHR ''_'' \<notin> set a" "CHR ''_'' \<notin> set b" "a @ CHR ''_'' # c = b @ CHR ''_'' # d"
  shows "a = b \<and> c = d"
proof -
  have "takeWhile (\<lambda>x. x \<noteq> CHR ''_'') (a @ CHR ''_'' # c) = a"
    using assms(1) by (induction a) auto
  moreover have "takeWhile (\<lambda>x. x \<noteq> CHR ''_'') (b @ CHR ''_'' # d) = b"
    using assms(2) by (induction b) auto
  ultimately have "a = b" using assms(3) by simp
  with assms(3) show ?thesis by simp
qed

lemma synth_id_inj: "synth_id i t = synth_id j u \<Longrightarrow> i = j \<and> t = u"
proof -
  assume "synth_id i t = synth_id j u"
  then have "string_of_int i @ CHR ''_'' # string_of_int t = string_of_int j @ CHR ''_'' # string_of_int u"
    by (simp add: synth_id_def)
  then have "string_of_int i = string_of_int j \<and> string_of_int t = string_of_int u"
    by (intro split_at_underscore string_of_int_no_underscore)
  then show ?thesis by (simp add: string_of_int_inj)
qed


section \<open>The round accumulator\<close>





text \<open>
  C4 (descriptor order). The descriptor list of a finished round is meant to be in ascending
  order of the positional index, whatever the order of arrival. \<^verbatim>\<open>AgentLoop.processRound\<close>
  takes the values of its map in insertion order and has no sort: when the fragment of
  index 1 arrives one record before the fragment of index 0, the assistant message lists
  the call of index 1 first. \<^verbatim>\<open>CopilotService.streamOneRound\<close> sorts the entries of its map
  by index and, on the same stream, returns the call of index 0 first.
\<close>

theorem descriptor_order_counterexample:
  "plugin_stream_fragments reversed_lines =
     [fragment 1 (Some ''call_b'') (Some ''grep'') (Some ''{}''),
      fragment 0 (Some ''call_a'') (Some ''glob'') (Some ''{}'')] \<and>
   fst (plugin_processRound (plugin_env_with reversed_lines) ''t1'' (agent0, world0)) =
     Inr (Some \<lparr>msg_role = RoleAssistant, msg_content = None,
                msg_tool_calls =
                  Some [\<lparr>call_id = ''call_b'', call_name = ''grep'', call_arguments = ''{}''\<rparr>,
                        \<lparr>call_id = ''call_a'', call_name = ''glob'', call_arguments = ''{}''\<rparr>],
                msg_tool_call_id = None\<rparr>) \<and>
   rr_toolCalls (fst (streamOneRound (service_env_with [reversed_lines]) ''t1'' service0 [] world0)) =
     [\<lparr>call_id = ''call_a'', call_name = ''glob'', call_arguments = ''{}''\<rparr>,
      \<lparr>call_id = ''call_b'', call_name = ''grep'', call_arguments = ''{}''\<rparr>]"
  by code_simp

text \<open>
  The order in each loop, for every stream. \<^verbatim>\<open>CopilotService.streamOneRound\<close>, when it reports
  no error, returns one descriptor for each positional index of the stream, in strictly
  ascending order of the index. \<^verbatim>\<open>AgentLoop.processRound\<close>, when nobody cancels and the body
  has the expected shape, puts into the assistant message one descriptor for each
  positional index in the order in which the indices first appeared in the stream (and no
  list when there is no fragment).
\<close>

lemma descriptor_order:
  "(env_chat_fetch env (length (w_calls w)) token (sv_selectedModel sv) messages = Inr (reads, fin) \<and>
    rr_error (fst (streamOneRound env token sv messages w)) = None \<longrightarrow>
      rr_toolCalls (fst (streamOneRound env token sv messages w)) =
        map (\<lambda>i. declared_call
                    (service_final_id (env_clock env) (w_clock_reads w) i (service_stream_fragments reads))
                    i (service_stream_fragments reads))
          (sorted_list_of_set (tc_index ` set (service_stream_fragments reads))) \<and>
      sorted_wrt (<) (sorted_list_of_set (tc_index ` set (service_stream_fragments reads))))
   \<and>
   (env_cancel_after envP = None \<and>
    env_chat_text envP (length (w_calls wP)) tokenP (ag_model ag) (ag_messages ag) = Inr ls \<and>
    well_shaped ls \<longrightarrow>
      (\<exists>msg. fst (plugin_processRound envP tokenP (ag, wP)) = Inr (Some msg) \<and>
         msg_tool_calls msg =
           (if plugin_stream_fragments ls = [] then None
            else Some (map (\<lambda>i. declared_call (plugin_final_id i (plugin_stream_fragments ls)) i
                                   (plugin_stream_fragments ls))
                         (first_appearances (plugin_stream_fragments ls))))))"
proof (intro conjI impI)
  assume h: "env_chat_fetch env (length (w_calls w)) token (sv_selectedModel sv) messages = Inr (reads, fin) \<and>
    rr_error (fst (streamOneRound env token sv messages w)) = None"
  then show "rr_toolCalls (fst (streamOneRound env token sv messages w)) =
        map (\<lambda>i. declared_call
                    (service_final_id (env_clock env) (w_clock_reads w) i (service_stream_fragments reads))
                    i (service_stream_fragments reads))
          (sorted_list_of_set (tc_index ` set (service_stream_fragments reads)))"
    using streamOneRound_streamed[of env w token sv messages reads fin]
    by (simp add: service_descriptors)
next
  show "sorted_wrt (<) (sorted_list_of_set (tc_index ` set (service_stream_fragments reads)))"
    by simp
next
  assume h: "env_cancel_after envP = None \<and>
    env_chat_text envP (length (w_calls wP)) tokenP (ag_model ag) (ag_messages ag) = Inr ls \<and>
    well_shaped ls"
  then obtain acc w1 where
    r: "plugin_processRound envP tokenP (ag, wP) = plugin_finish_round acc (ag, w1)"
    and m: "acc_calls acc = fst (plugin_fragments (plugin_stream_fragments ls) [])"
    using plugin_processRound_streamed[of envP wP tokenP ag ls] by blast
  have e: "fst (plugin_fragments (plugin_stream_fragments ls) []) = [] \<longleftrightarrow> plugin_stream_fragments ls = []"
    using plugin_keys_set[of "plugin_stream_fragments ls"]
    by (metis image_is_empty set_empty)
  show "\<exists>msg. fst (plugin_processRound envP tokenP (ag, wP)) = Inr (Some msg) \<and>
         msg_tool_calls msg =
           (if plugin_stream_fragments ls = [] then None
            else Some (map (\<lambda>i. declared_call (plugin_final_id i (plugin_stream_fragments ls)) i
                                   (plugin_stream_fragments ls))
                         (first_appearances (plugin_stream_fragments ls))))"
    using e by (simp add: r m plugin_finish_round_def Let_def plugin_tool_calls_def plugin_descriptors)
qed

text \<open>
  C8 (tool-call identity). In both loops a fragment goes to the descriptor of its positional
  index. An id that arrives late is meant to be recorded on the final descriptor, and an id
  that never arrives to be made up from the position and a timestamp, so that the ids of a
  round are unique. Each loop does one of the two and misses the other.
  \<^verbatim>\<open>CopilotService.streamOneRound\<close> reads the id only when it creates the entry of an index: when
  the id \<^verbatim>\<open>call_9\<close> arrives in the second fragment of index 0, the descriptor keeps the id made
  up at the first fragment, where \<^verbatim>\<open>AgentLoop.processRound\<close> records \<^verbatim>\<open>call_9\<close> on the same
  stream. \<^verbatim>\<open>AgentLoop.processRound\<close> never makes up an id: two calls that never get one both end
  with the empty id, where \<^verbatim>\<open>CopilotService.streamOneRound\<close> gives them two different ids on
  the same stream.
\<close>

theorem tool_call_identity_counterexample:
  "service_stream_fragments [late_id_lines] =
     [fragment 0 None (Some ''grep'') None, fragment 0 (Some ''call_9'') None (Some ''{}'')] \<and>
   rr_toolCalls (fst (streamOneRound (service_env_with [late_id_lines]) ''t1'' service0 [] world0)) =
     [\<lparr>call_id = ''tc_0_0'', call_name = ''grep'', call_arguments = ''{}''\<rparr>] \<and>
   fst (plugin_processRound (plugin_env_with late_id_lines) ''t1'' (agent0, world0)) =
     Inr (Some \<lparr>msg_role = RoleAssistant, msg_content = None,
                msg_tool_calls =
                  Some [\<lparr>call_id = ''call_9'', call_name = ''grep'', call_arguments = ''{}''\<rparr>],
                msg_tool_call_id = None\<rparr>) \<and>
   plugin_stream_fragments no_id_lines =
     [fragment 0 None (Some ''grep'') (Some ''{}''), fragment 1 None (Some ''glob'') (Some ''{}'')] \<and>
   fst (plugin_processRound (plugin_env_with no_id_lines) ''t1'' (agent0, world0)) =
     Inr (Some \<lparr>msg_role = RoleAssistant, msg_content = None,
                msg_tool_calls =
                  Some [\<lparr>call_id = [], call_name = ''grep'', call_arguments = ''{}''\<rparr>,
                        \<lparr>call_id = [], call_name = ''glob'', call_arguments = ''{}''\<rparr>],
                msg_tool_call_id = None\<rparr>) \<and>
   rr_toolCalls (fst (streamOneRound (service_env_with [no_id_lines]) ''t1'' service0 [] world0)) =
     [\<lparr>call_id = ''tc_0_0'', call_name = ''grep'', call_arguments = ''{}''\<rparr>,
      \<lparr>call_id = ''tc_1_1'', call_name = ''glob'', call_arguments = ''{}''\<rparr>]"
  by code_simp

text \<open>
  The ids in each loop, for every stream and every index. In \<^verbatim>\<open>AgentLoop.processRound\<close> the
  descriptor of an index ends with the last id that a fragment of the index revealed,
  however late, and with the empty id when none did. In \<^verbatim>\<open>CopilotService.streamOneRound\<close> the
  id is settled by the first fragment of the index: its id if it has one, else the id made
  up from the index and the clock at that moment; such made-up ids differ whenever the
  indices differ.
\<close>

lemma tool_call_identity:
  "(env_cancel_after envP = None \<and> fst (plugin_stream envP ls (empty_acc, wP)) = StreamEnded \<longrightarrow>
      map_of (acc_calls (fst (snd (plugin_stream envP ls (empty_acc, wP))))) i =
        (if i \<in> tc_index ` set (plugin_stream_fragments ls)
         then Some (declared_call (plugin_final_id i (plugin_stream_fragments ls)) i (plugin_stream_fragments ls))
         else None))
   \<and>
   (fst (service_reads env has_signal reads fin (empty_acc, w)) = None \<longrightarrow>
      map_of (acc_calls (fst (snd (service_reads env has_signal reads fin (empty_acc, w))))) i =
        (if i \<in> tc_index ` set (service_stream_fragments reads)
         then Some (declared_call
                      (service_final_id (env_clock env) (w_clock_reads w) i (service_stream_fragments reads))
                      i (service_stream_fragments reads))
         else None))
   \<and>
   (synth_id i t = synth_id j u \<longrightarrow> i = j \<and> t = u)"
proof -
  have plugin: "map_of (acc_calls (fst (snd (plugin_stream envP ls (empty_acc, wP))))) i =
        (if i \<in> tc_index ` set (plugin_stream_fragments ls)
         then Some (declared_call (plugin_final_id i (plugin_stream_fragments ls)) i (plugin_stream_fragments ls))
         else None)"
    if h: "env_cancel_after envP = None \<and> fst (plugin_stream envP ls (empty_acc, wP)) = StreamEnded"
  proof -
    have "acc_calls (fst (snd (plugin_stream envP ls (empty_acc, wP)))) =
        fst (plugin_fragments (plugin_stream_fragments ls) [])"
      using h plugin_stream_calls[of envP ls "(empty_acc, wP)"]
      by (cases "plugin_stream envP ls (empty_acc, wP)") (auto simp add: empty_acc_def)
    then show ?thesis
      by (simp add: plugin_lookup index_fragments_Nil_iff declared_call_def)
  qed
  have service: "map_of (acc_calls (fst (snd (service_reads env has_signal reads fin (empty_acc, w))))) i =
        (if i \<in> tc_index ` set (service_stream_fragments reads)
         then Some (declared_call
                      (service_final_id (env_clock env) (w_clock_reads w) i (service_stream_fragments reads))
                      i (service_stream_fragments reads))
         else None)"
    if h: "fst (service_reads env has_signal reads fin (empty_acc, w)) = None"
  proof -
    have "acc_calls (fst (snd (service_reads env has_signal reads fin (empty_acc, w)))) =
        fst (service_fragments (env_clock env) (service_stream_fragments reads) ([], w_clock_reads w))"
      using h service_reads_calls[of env has_signal reads fin "(empty_acc, w)"]
      by (cases "service_reads env has_signal reads fin (empty_acc, w)")
         (auto simp add: empty_acc_def dest: arg_cong[where f = fst])
    then show ?thesis
      by (simp add: service_lookup index_fragments_Nil_iff declared_call_def)
  qed
  have made_up: "i = j \<and> t = u" if "synth_id i t = synth_id j u"
    using that by (rule synth_id_inj)
  from plugin service made_up show ?thesis by blast
qed


section \<open>The tool executors\<close>

subsection \<open>Helpers: what \<^verbatim>\<open>execute\<close> catches\<close>

lemma catch_thrown_not_Thrown: "fst (catch_thrown r) \<noteq> Thrown e"
  by (cases r) (auto simp add: catch_thrown_def split: tool_outcome.splits)

lemma catch_thrown_Escaped: "fst (catch_thrown r) = Escaped e \<longleftrightarrow> fst r = Escaped e"
  by (cases r) (auto simp add: catch_thrown_def split: tool_outcome.splits)

lemma catch_thrown_Thrown:
  "catch_thrown (Thrown e, fs) = (Result \<lparr>result_content = ''Error: '' @ e, isError = True\<rparr>, fs)"
  by (simp add: catch_thrown_def)

text \<open>\<^verbatim>\<open>ToolExecutor.execute\<close> never rejects: what a tool throws comes back as a result.\<close>

lemma plugin_execute_not_Thrown: "fst (plugin_execute env vault n args fs) \<noteq> Thrown e"
  unfolding plugin_execute_def by (rule catch_thrown_not_Thrown)

lemma service_grep_callback_not_Escaped: "service_grep_callback r \<noteq> Escaped e"
  by (simp add: service_grep_callback_def)

lemma service_glob_callback_not_Escaped: "service_glob_callback env vault r \<noteq> Escaped e"
  by (simp add: service_glob_callback_def Let_def)

lemma service_bash_callback_not_Escaped: "service_bash_callback r \<noteq> Escaped e"
  by (simp add: service_bash_callback_def Let_def split: option.split)

lemma plugin_bash_callback_not_Escaped: "plugin_bash_callback r \<noteq> Escaped e"
  by (simp add: plugin_bash_callback_def Let_def)

lemma plugin_grep_callback_not_Escaped:
  "env_regexp_remove_all env (vault @ ''/'') = Inr strip \<Longrightarrow> plugin_grep_callback env vault r \<noteq> Escaped e"
  by (simp add: plugin_grep_callback_def Let_def)

lemma plugin_glob_callback_not_Escaped:
  "env_regexp_remove_all env (vault @ ''/'') = Inr strip \<Longrightarrow> plugin_glob_callback env vault r \<noteq> Escaped e"
  by (simp add: plugin_glob_callback_def)

lemma service_readFile_not_Escaped: "fst (service_readFile env vault args fs) \<noteq> Escaped e"
  by (simp add: service_readFile_def Let_def split del: if_split split: sum.split prod.split option.split if_split)

lemma service_writeFile_not_Escaped: "fst (service_writeFile env vault args fs) \<noteq> Escaped e"
  by (simp add: service_writeFile_def Let_def split del: if_split split: sum.split prod.split option.split if_split)

lemma service_editFile_not_Escaped: "fst (service_editFile env vault args fs) \<noteq> Escaped e"
  by (simp add: service_editFile_def Let_def split del: if_split split: sum.split prod.split option.split if_split)

lemma service_bash_not_Escaped: "fst (service_bash env vault args fs) \<noteq> Escaped e"
  by (simp add: service_bash_def service_bash_callback_not_Escaped Let_def
      split del: if_split split: sum.split prod.split option.split)

lemma service_grep_not_Escaped: "fst (service_grep env vault args fs) \<noteq> Escaped e"
  by (simp add: service_grep_def service_grep_callback_not_Escaped Let_def
      split del: if_split split: sum.split prod.split)

lemma service_glob_not_Escaped: "fst (service_glob env vault args fs) \<noteq> Escaped e"
  by (simp add: service_glob_def service_glob_callback_not_Escaped Let_def
      split del: if_split split: sum.split prod.split)

lemma service_ls_not_Escaped: "fst (service_ls env vault args fs) \<noteq> Escaped e"
  by (simp add: service_ls_def Let_def split del: if_split split: sum.split prod.split option.split if_split)

text \<open>
  \<^verbatim>\<open>CopilotToolExecutor.execute\<close> is total: for every tool name and every argument value it
  returns a result.
\<close>

lemma service_execute_returns:
  "\<exists>r fs'. service_execute names env vault n args fs = (Result r, fs')"
proof -
  have ne: "\<And>e. fst (service_execute names env vault n args fs) \<noteq> Escaped e"
    by (simp add: service_execute_def catch_thrown_Escaped service_readFile_not_Escaped
        service_writeFile_not_Escaped service_editFile_not_Escaped service_bash_not_Escaped
        service_grep_not_Escaped service_glob_not_Escaped service_ls_not_Escaped)
  have nt: "\<And>e. fst (service_execute names env vault n args fs) \<noteq> Thrown e"
    unfolding service_execute_def by (rule catch_thrown_not_Thrown)
  obtain out fs' where eq: "service_execute names env vault n args fs = (out, fs')"
    by (cases "service_execute names env vault n args fs")
  with ne nt show ?thesis by (cases out) auto
qed

lemma plugin_readFile_not_Escaped: "fst (plugin_readFile env vault args fs) \<noteq> Escaped e"
  by (simp add: plugin_readFile_def Let_def split del: if_split split: sum.split prod.split option.split if_split)

lemma plugin_writeFile_not_Escaped: "fst (plugin_writeFile env vault args fs) \<noteq> Escaped e"
  by (simp add: plugin_writeFile_def Let_def split del: if_split split: sum.split prod.split option.split if_split)

lemma plugin_editFile_not_Escaped: "fst (plugin_editFile env vault args fs) \<noteq> Escaped e"
  by (simp add: plugin_editFile_def Let_def split del: if_split split: sum.split prod.split option.split if_split)

lemma plugin_bash_not_Escaped: "fst (plugin_bash env vault args fs) \<noteq> Escaped e"
  by (simp add: plugin_bash_def plugin_bash_callback_not_Escaped Let_def
      split del: if_split split: sum.split option.split prod.split)

lemma plugin_ls_not_Escaped: "fst (plugin_ls env vault args fs) \<noteq> Escaped e"
  by (simp add: plugin_ls_def Let_def split del: if_split split: sum.split prod.split option.split if_split)

lemma plugin_grep_not_Escaped:
  "env_regexp_remove_all env (vault @ ''/'') = Inr strip \<Longrightarrow> fst (plugin_grep env vault args fs) \<noteq> Escaped e"
  by (simp add: plugin_grep_def plugin_grep_callback_not_Escaped Let_def
      split del: if_split split: sum.split prod.split)

lemma plugin_glob_not_Escaped:
  "env_regexp_remove_all env (vault @ ''/'') = Inr strip \<Longrightarrow> fst (plugin_glob env vault args fs) \<noteq> Escaped e"
  by (simp add: plugin_glob_def plugin_glob_callback_not_Escaped Let_def
      split del: if_split split: sum.split prod.split)

text \<open>
  \<^verbatim>\<open>ToolExecutor.execute\<close> returns a result for every tool name and every argument value when
  the vault path, followed by a slash, is a pattern that \<^verbatim>\<open>RegExp\<close> accepts.
\<close>

lemma plugin_execute_returns:
  assumes "env_regexp_remove_all env (vault @ ''/'') = Inr strip"
  shows "\<exists>r fs'. plugin_execute env vault n args fs = (Result r, fs')"
proof -
  have ne: "\<And>e. fst (plugin_execute env vault n args fs) \<noteq> Escaped e"
    using assms
    by (simp add: plugin_execute_def catch_thrown_Escaped plugin_readFile_not_Escaped
        plugin_writeFile_not_Escaped plugin_editFile_not_Escaped plugin_bash_not_Escaped
        plugin_grep_not_Escaped plugin_glob_not_Escaped plugin_ls_not_Escaped)
  obtain out fs' where eq: "plugin_execute env vault n args fs = (out, fs')"
    by (cases "plugin_execute env vault n args fs")
  with ne plugin_execute_not_Thrown[of env vault n args fs] show ?thesis by (cases out) auto
qed

text \<open>
  C2 (\<^verbatim>\<open>execute\<close> is total): the code misses it. In \<^verbatim>\<open>ToolExecutor\<close> the callbacks of grep and
  glob build \<^verbatim>\<open>new RegExp(this.vaultPath + "/", "g")\<close>; for a vault whose path is not a
  pattern the constructor throws inside the callback, outside the \<^verbatim>\<open>try\<close> of \<^verbatim>\<open>execute\<close>, and
  the promise is never settled: \<^verbatim>\<open>execute\<close> neither returns a result nor rejects. Here a grep
  with one match in the vault \<^verbatim>\<open>/home/u/C++\<close>.
\<close>

theorem execute_callback_exception_escapes:
  "plugin_execute plus_env plus_vault TOOL_GREP (JObj [(''pattern'', JStr ''a'')]) [(plus_vault, Dir)] =
     (Escaped ''Invalid regular expression: Nothing to repeat'', [(plus_vault, Dir)])"
  by code_simp

subsection \<open>Helpers: the guard of \<^verbatim>\<open>resolvePath\<close>\<close>

lemma plugin_resolvePath_refuses:
  "\<not> prefix vault (path_resolve (env_cwd env) vault p) \<Longrightarrow>
     plugin_resolvePath env vault p = Inl ''Path traversal not allowed: path must be within the vault''"
  by (simp add: plugin_resolvePath_def)

text \<open>
  What the guard does stop: when no argument throws on conversion and the resolved path does
  not start, as a string, with the vault path, each of the six path-taking tools of
  \<^verbatim>\<open>ToolExecutor\<close> returns the path-traversal error and leaves the file system as it was.
\<close>

lemma plugin_guard_blocks:
  assumes "toolName \<in> set plugin_path_tools"
    and "args \<noteq> JNull" and "args \<noteq> JUndefined"
    and "strings_ok env args"
    and "\<not> prefix vault (path_resolve (env_cwd env) vault (plugin_path_argument env toolName args))"
  shows "plugin_execute env vault toolName args fs =
     (Result \<lparr>result_content = ''Error: Path traversal not allowed: path must be within the vault'',
              isError = True\<rparr>, fs)"
proof -
  have g: "\<And>key. get_prop args key = Inr (js_prop args key)"
    using assms(2,3) by (cases args) (simp_all add: get_prop_def js_prop_def)
  have s: "to_string env (js_prop args key) = Inr (string_arg env args key)" for key
  proof -
    from assms(4) obtain t where "to_string env (js_prop args key) = Inr t"
      unfolding strings_ok_def by blast
    then show ?thesis by (simp add: string_arg_def)
  qed
  have p: "(if js_truthy (js_prop args ''path'') then to_string env (js_prop args ''path'') else Inr ''.'') =
      Inr (if js_truthy (js_prop args ''path'') then string_arg env args ''path'' else ''.'')"
    by (simp add: s)
  have i: "(if js_truthy (js_prop args ''include'') then to_string env (js_prop args ''include'') else Inr []) =
      Inr (if js_truthy (js_prop args ''include'') then string_arg env args ''include'' else [])"
    by (simp add: s)
  consider "toolName = TOOL_READ" | "toolName = TOOL_WRITE" | "toolName = TOOL_EDIT"
    | "toolName = TOOL_GREP" | "toolName = TOOL_GLOB" | "toolName = TOOL_LS"
    using assms(1) by (auto simp add: plugin_path_tools_def)
  then show ?thesis
  proof cases
    case 1
    with assms(5) show ?thesis
      by (simp add: plugin_execute_def plugin_readFile_def plugin_path_argument_def
          plugin_resolvePath_def catch_thrown_def g s)
  next
    case 2
    with assms(5) show ?thesis
      by (simp add: plugin_execute_def plugin_writeFile_def plugin_path_argument_def
          plugin_resolvePath_def catch_thrown_def TOOL_READ_def TOOL_WRITE_def Let_def g s)
  next
    case 3
    with assms(5) show ?thesis
      by (simp add: plugin_execute_def plugin_editFile_def plugin_path_argument_def
          plugin_resolvePath_def catch_thrown_def TOOL_READ_def TOOL_WRITE_def TOOL_EDIT_def Let_def g s)
  next
    case 4
    with assms(5) show ?thesis
      by (simp add: plugin_execute_def plugin_grep_def plugin_path_argument_def
          plugin_resolvePath_def catch_thrown_def TOOL_READ_def TOOL_WRITE_def TOOL_EDIT_def
          TOOL_BASH_def TOOL_GREP_def Let_def g s p i split del: if_split)
  next
    case 5
    with assms(5) show ?thesis
      by (simp add: plugin_execute_def plugin_glob_def plugin_path_argument_def
          plugin_resolvePath_def catch_thrown_def TOOL_READ_def TOOL_WRITE_def TOOL_EDIT_def
          TOOL_BASH_def TOOL_GREP_def TOOL_GLOB_def Let_def g s p split del: if_split)
  next
    case 6
    with assms(5) show ?thesis
      by (simp add: plugin_execute_def plugin_ls_def plugin_path_argument_def
          plugin_resolvePath_def catch_thrown_def TOOL_READ_def TOOL_WRITE_def TOOL_EDIT_def
          TOOL_BASH_def TOOL_GREP_def TOOL_GLOB_def TOOL_LS_def Let_def g s p split del: if_split)
  qed
qed

text \<open>
  C1 (path confinement): the code misses it. \<^verbatim>\<open>resolvePath\<close> compares strings
  (\<^verbatim>\<open>resolved.startsWith(this.vaultPath)\<close>), so a path that resolves into a sibling directory
  whose name starts with the vault's name passes: with the vault \<^verbatim>\<open>/vault\<close>, the argument
  \<^verbatim>\<open>../vault2/x\<close> resolves to \<^verbatim>\<open>/vault2/x\<close>, outside the vault, and \<^verbatim>\<open>write_file\<close> of either
  executor creates the directory and the file and reports success.
\<close>

theorem path_confinement_sibling_escape:
  "path_resolve ''/'' ''/vault'' ''../vault2/x'' = ''/vault2/x'' \<and>
   path_within ''/vault'' ''/vault2/x'' = False \<and>
   plugin_execute quiet_env ''/vault'' TOOL_WRITE
       (JObj [(''file_path'', JStr ''../vault2/x''), (''content'', JStr ''pwn'')]) [(''/vault'', Dir)] =
     (Result \<lparr>result_content = ''Wrote 1 lines to ../vault2/x'', isError = False\<rparr>,
      [(''/vault'', Dir), (''/vault2'', Dir), (''/vault2/x'', File ''pwn'')]) \<and>
   service_execute sample_names quiet_env ''/vault'' ''write_file''
       (JObj [(''file_path'', JStr ''../vault2/x''), (''content'', JStr ''pwn'')]) [(''/vault'', Dir)] =
     (Result \<lparr>result_content = ''File written: ../vault2/x'', isError = False\<rparr>,
      [(''/vault'', Dir), (''/vault2'', Dir), (''/vault2/x'', File ''pwn'')])"
  by code_simp


subsection \<open>Helpers: counting and replacing in \<^verbatim>\<open>edit\<close>\<close>

text \<open>
  For a pattern that is not empty, \<^verbatim>\<open>content.split(old).length - 1\<close> is zero exactly when the
  pattern does not occur.
\<close>

lemma split_from_length: "length (split_from pat cur s) \<ge> 1"
  by (induction pat cur s rule: split_from.induct) auto

lemma split_from_single:
  "pat \<noteq> [] \<Longrightarrow> length (split_from pat cur s) = 1 \<longleftrightarrow> \<not> js_includes pat s"
proof (induction pat cur s rule: split_from.induct)
  case (1 sep cur)
  then show ?case by simp
next
  case (2 sep cur c cs)
  show ?case
  proof (cases "prefix sep (c # cs)")
    case True
    with "2.prems" have "length (split_from sep cur (c # cs)) =
        Suc (length (split_from sep [] (drop (length sep) (c # cs))))"
      by simp
    with True split_from_length[of sep "[]" "drop (length sep) (c # cs)"] show ?thesis
      by auto
  next
    case False
    with 2 show ?thesis by simp
  qed
qed

lemma js_split_single:
  "old \<noteq> [] \<Longrightarrow> int (length (js_split old content)) - 1 = 0 \<longleftrightarrow> \<not> js_includes old content"
  using split_from_single[of old "[]" content] by (simp add: js_split_def)

lemma find_first_Some:
  "find_first pat s = Some (pre, post) \<Longrightarrow> s = pre @ pat @ post"
proof (induction s arbitrary: pre)
  case Nil
  then show ?case by (simp split: if_splits)
next
  case (Cons c cs)
  show ?case
  proof (cases "prefix pat (c # cs)")
    case True
    with Cons.prems have "pre = []" and "post = drop (length pat) (c # cs)"
      by simp_all
    with True show ?thesis
      by (metis append_Nil prefix_def append_eq_conv_conj)
  next
    case False
    with Cons.prems obtain b where b: "find_first pat cs = Some (b, post)" and p: "pre = c # b"
      by (cases "find_first pat cs") auto
    from Cons.IH[OF b] p show ?thesis by simp
  qed
qed

lemma find_first_includes:
  "js_includes pat s \<Longrightarrow> \<exists>pre post. find_first pat s = Some (pre, post)"
proof (induction s)
  case Nil
  then show ?case by simp
next
  case (Cons c cs)
  then show ?case by (cases "prefix pat (c # cs)") auto
qed

lemma get_substitution_plain:
  "CHR ''$'' \<notin> set repl \<Longrightarrow> get_substitution matched pre post repl = repl"
  by (induction matched pre post repl rule: get_substitution.induct) auto

text \<open>
  When the pattern occurs and the replacement has no dollar sign, \<^verbatim>\<open>content.replace(old, new)\<close>
  puts the replacement in the place of the first occurrence and changes nothing else.
\<close>

lemma js_replace_plain:
  assumes "js_includes old content" and "CHR ''$'' \<notin> set new"
  shows "\<exists>pre post. content = pre @ old @ post \<and> js_replace old new content = pre @ new @ post"
proof -
  from find_first_includes[OF assms(1)] obtain pre post where
    f: "find_first old content = Some (pre, post)" by blast
  from find_first_Some[OF f] f assms(2) show ?thesis
    by (auto simp add: js_replace_def get_substitution_plain)
qed

text \<open>
  \<^verbatim>\<open>editFile\<close> of either executor writes only when it reports success: with an error result, or
  with an exception, the file system is as it was.
\<close>

lemma plugin_editFile_error_keeps_fs:
  "plugin_editFile env vault args fs = (out, fs') \<Longrightarrow>
     (\<forall>r. out = Result r \<longrightarrow> isError r) \<Longrightarrow> fs' = fs"
  by (auto simp add: plugin_editFile_def Let_def split: sum.splits if_splits)

lemma shown_after_resolve:
  "and_then (to_string env (js_nullish_or fp d)) f = Inr p \<Longrightarrow> to_string env fp = Inl e \<Longrightarrow> False"
  by (cases "fp = JUndefined \<or> fp = JNull")
     (auto simp add: and_then_def js_nullish_or_def to_string_def split: sum.splits)

lemma service_editFile_error_keeps_fs:
  "service_editFile env vault args fs = (out, fs') \<Longrightarrow>
     (\<forall>r. out = Result r \<longrightarrow> isError r) \<Longrightarrow> fs' = fs"
  by (auto simp add: service_editFile_def Let_def split: sum.splits if_splits
      dest: shown_after_resolve)

text \<open>
  With a file that can be read: when \<^verbatim>\<open>split\<close> cuts the content into one part (no occurrence)
  the result is the not-found error; when it cuts it into more than two parts the result
  is the error that carries the count of \<^verbatim>\<open>split\<close>, which does not see the occurrences that
  overlap one it has counted.
\<close>

lemma plugin_editFile_counts:
  assumes "get_prop args ''file_path'' = Inr fp"
    and "to_string env fp = Inr filePath"
    and "to_string env (js_prop args ''old_string'') = Inr oldString"
    and "to_string env (js_prop args ''new_string'') = Inr newString"
    and "plugin_resolvePath env vault filePath = Inr absPath"
    and "fs_readFile fs absPath = Inr content"
    and "n = int (length (js_split oldString content)) - 1"
  shows "n = 0 \<Longrightarrow> plugin_editFile env vault args fs =
           (Result \<lparr>result_content = ''old_string not found in '' @ filePath, isError = True\<rparr>, fs)"
    and "n > 1 \<Longrightarrow> plugin_editFile env vault args fs =
           (Result \<lparr>result_content = ''old_string found '' @ string_of_int n @ '' times in ''
                       @ filePath @ '' - must be unique. Provide more surrounding context.'',
                    isError = True\<rparr>, fs)"
  using assms by (simp_all add: plugin_editFile_def Let_def)

lemma service_editFile_counts:
  assumes "get_prop args ''file_path'' = Inr fp"
    and "to_string env (js_nullish_or fp (JStr [])) = Inr shown"
    and "service_resolvePath env vault shown = Inr filePath"
    and "to_string env (js_nullish_or (js_prop args ''old_string'') (JStr [])) = Inr oldString"
    and "to_string env (js_nullish_or (js_prop args ''new_string'') (JStr [])) = Inr newString"
    and "fs_readFile fs filePath = Inr content"
    and "n = int (length (js_split oldString content)) - 1"
  shows "n = 0 \<Longrightarrow> service_editFile env vault args fs =
           (Result \<lparr>result_content = ''old_string not found in file'', isError = True\<rparr>, fs)"
    and "n > 1 \<Longrightarrow> service_editFile env vault args fs =
           (Result \<lparr>result_content = ''old_string found '' @ string_of_int n @ '' times (must be unique)'',
                    isError = True\<rparr>, fs)"
  using assms by (simp_all add: service_editFile_def and_then_def Let_def)

text \<open>
  C6 (\<^verbatim>\<open>edit\<close>): the code misses the last part. With exactly one occurrence the file does
  not always get \<^verbatim>\<open>new_string\<close> in its place: \<^verbatim>\<open>content.replace(oldString, newString)\<close> reads
  \<^verbatim>\<open>$$\<close>, \<^verbatim>\<open>$&\<close>, \<^verbatim>\<open>$`\<close> and \<^verbatim>\<open>$'\<close> in the replacement as patterns. Here \<^verbatim>\<open>X\<close> occurs once in
  \<^verbatim>\<open>price: X\<close> and is to become \<^verbatim>\<open>$$5\<close>; both executors report success and write \<^verbatim>\<open>price: $5\<close>.
  (An empty \<^verbatim>\<open>old_string\<close> is a second slip: it is counted as one occurrence in a file of two
  characters, and the edit then inserts at the front.)
\<close>

theorem edit_dollar_patterns_rewritten:
  "int (length (js_split ''X'' ''price: X'')) - 1 = 1 \<and>
   plugin_execute quiet_env ''/vault'' TOOL_EDIT
       (JObj [(''file_path'', JStr ''n.md''), (''old_string'', JStr ''X''), (''new_string'', JStr ''$$5'')])
       [(''/vault'', Dir), (''/vault/n.md'', File ''price: X'')] =
     (Result \<lparr>result_content = ''Edited n.md successfully'', isError = False\<rparr>,
      [(''/vault'', Dir), (''/vault/n.md'', File ''price: $5'')]) \<and>
   service_execute sample_names quiet_env ''/vault'' ''edit_file''
       (JObj [(''file_path'', JStr ''n.md''), (''old_string'', JStr ''X''), (''new_string'', JStr ''$$5'')])
       [(''/vault'', Dir), (''/vault/n.md'', File ''price: X'')] =
     (Result \<lparr>result_content = ''File edited: n.md'', isError = False\<rparr>,
      [(''/vault'', Dir), (''/vault/n.md'', File ''price: $5'')]) \<and>
   plugin_execute quiet_env ''/vault'' TOOL_EDIT
       (JObj [(''file_path'', JStr ''n.md''), (''old_string'', JStr []), (''new_string'', JStr ''Z'')])
       [(''/vault'', Dir), (''/vault/n.md'', File ''ab'')] =
     (Result \<lparr>result_content = ''Edited n.md successfully'', isError = False\<rparr>,
      [(''/vault'', Dir), (''/vault/n.md'', File ''Zab'')])"
  by code_simp


section \<open>The loops\<close>

subsection \<open>Helpers: how the steps extend the world\<close>

lemma grows_refl: "grows w w [] []"
  by (simp add: grows_def)

lemma grows_trans: "grows w w1 cs1 es1 \<Longrightarrow> grows w1 w2 cs2 es2 \<Longrightarrow> grows w w2 (cs1 @ cs2) (es1 @ es2)"
  by (simp add: grows_def)

lemma grows_look: "look_aborted env w = (ab, w') \<Longrightarrow> grows w w' [] []"
  by (auto simp add: grows_def look_aborted_def)

lemma grows_emit: "grows w (emit es w) [] es"
  by (simp add: grows_def emit_def)

lemma grows_record_call: "grows w (record_call c w) [c] []"
  by (simp add: grows_def record_call_def)

lemma history_grows_refl: "history_grows ag ag"
  by (simp add: history_grows_def)

lemma history_grows_trans: "history_grows a b \<Longrightarrow> history_grows b c \<Longrightarrow> history_grows a c"
  by (auto simp add: history_grows_def)

lemma history_grows_push: "history_grows ag (ag\<lparr>ag_messages := ag_messages ag @ ms\<rparr>)"
  by (simp add: history_grows_def)

lemma no_final_event_append [simp]:
  "no_final_event (xs @ ys) \<longleftrightarrow> no_final_event xs \<and> no_final_event ys"
  by (simp add: no_final_event_def)

lemma no_final_event_Nil [simp]: "no_final_event []"
  by (simp add: no_final_event_def)

lemma no_final_event_Cons [simp]:
  "no_final_event (e # es) \<longleftrightarrow> \<not> is_final_event e \<and> no_final_event es"
  by (simp add: no_final_event_def)

lemma plugin_fragment_events: "no_final_event (snd (plugin_fragment tc m))"
  by (simp add: plugin_fragment_def Let_def)

lemma plugin_fragments_events: "no_final_event (snd (plugin_fragments tcs m))"
  by (induction tcs arbitrary: m) (simp_all add: split_def Let_def plugin_fragment_events)

lemma plugin_delta_grows:
  "plugin_delta d s = (acc', w') \<Longrightarrow> \<exists>es. grows (snd s) w' [] es \<and> no_final_event es"
  using plugin_fragments_events
  by (cases "delta_tool_calls d")
     (auto simp add: plugin_delta_def Let_def split_def grows_def emit_def split: if_splits)

lemma plugin_choices_grows:
  "plugin_choices cs s = (ok, acc', w') \<Longrightarrow> \<exists>es. grows (snd s) w' [] es \<and> no_final_event es"
proof (induction cs s rule: plugin_choices.induct)
  case (1 s)
  then show ?case using grows_refl by fastforce
next
  case (2 cs s)
  then show ?case using grows_refl by fastforce
next
  case (3 d cs s)
  obtain a1 w1 where d: "plugin_delta d s = (a1, w1)"
    by (cases "plugin_delta d s")
  from plugin_delta_grows[OF d] obtain es1 where
    g1: "grows (snd s) w1 [] es1" "no_final_event es1" by blast
  from 3 d obtain es2 where g2: "grows w1 w' [] es2" "no_final_event es2"
    by fastforce
  from grows_trans[OF g1(1) g2(1)] g1(2) g2(2) show ?case
    by (intro exI[of _ "es1 @ es2"]) simp
qed

lemma plugin_chunk_grows:
  "plugin_chunk chunk s = (ok, acc', w') \<Longrightarrow> \<exists>es. grows (snd s) w' [] es \<and> no_final_event es"
proof (cases chunk)
  case None
  assume "plugin_chunk chunk s = (ok, acc', w')"
  with None show ?thesis using grows_refl by (fastforce simp add: plugin_chunk_def)
next
  case (Some cs)
  assume "plugin_chunk chunk s = (ok, acc', w')"
  with Some show ?thesis using plugin_choices_grows[of cs s ok acc' w']
    by (simp add: plugin_chunk_def)
qed

lemma plugin_stream_grows:
  "plugin_stream env ls s = (e, acc', w') \<Longrightarrow> \<exists>es. grows (snd s) w' [] es \<and> no_final_event es"
proof (induction ls arbitrary: s)
  case Nil
  then show ?case using grows_refl by fastforce
next
  case (Cons line rest)
  obtain ab w1 where l1: "look_aborted env (snd s) = (ab, w1)"
    by (cases "look_aborted env (snd s)")
  note g1 = grows_look[OF l1]
  show ?case
  proof (cases ab)
    case True
    with Cons.prems l1 g1 show ?thesis by auto
  next
    case False
    show ?thesis
    proof (cases line)
      case SkipLine
      with Cons.prems l1 False have "plugin_stream env rest (fst s, w1) = (e, acc', w')"
        by simp
      from Cons.IH[OF this] obtain es where "grows w1 w' [] es" "no_final_event es"
        by auto
      with grows_trans[OF g1] show ?thesis by fastforce
    next
      case DoneLine
      with Cons.prems l1 False g1 show ?thesis by auto
    next
      case (DataLine chunk)
      obtain ab2 w2 where l2: "look_aborted env w1 = (ab2, w2)"
        by (cases "look_aborted env w1")
      note g2 = grows_trans[OF g1 grows_look[OF l2]]
      show ?thesis
      proof (cases ab2)
        case True
        with Cons.prems l1 l2 False DataLine g2 show ?thesis by auto
      next
        case nab: False
        obtain ok a3 w3 where c: "plugin_chunk chunk (fst s, w2) = (ok, a3, w3)"
          by (cases "plugin_chunk chunk (fst s, w2)")
        from plugin_chunk_grows[OF c] obtain es3 where
          g3: "grows w2 w3 [] es3" "no_final_event es3" by auto
        note g23 = grows_trans[OF g2 g3(1)]
        show ?thesis
        proof (cases ok)
          case True
          with Cons.prems l1 l2 False DataLine nab c have
            "plugin_stream env rest (a3, w3) = (e, acc', w')" by simp
          from Cons.IH[OF this] obtain es where "grows w3 w' [] es" "no_final_event es"
            by auto
          with grows_trans[OF g23] g3(2) show ?thesis by fastforce
        next
          case nok: False
          with Cons.prems l1 l2 False DataLine nab c g23 g3(2) show ?thesis by auto
        qed
      qed
    qed
  qed
qed

lemma plugin_streamChat_grows:
  "plugin_streamChat env token ag s = (e, acc', w') \<Longrightarrow>
     \<exists>es. grows (snd s) w' [ChatRequest token] es \<and> no_final_event es"
proof -
  assume a: "plugin_streamChat env token ag s = (e, acc', w')"
  let ?w0 = "record_call (ChatRequest token) (snd s)"
  have g0: "grows (snd s) ?w0 [ChatRequest token] []"
    by (rule grows_record_call)
  show ?thesis
  proof (cases "env_chat_text env (length (w_calls (snd s))) token (ag_model ag) (ag_messages ag)")
    case (Inl x)
    with a g0 show ?thesis by (auto simp add: plugin_streamChat_def Let_def)
  next
    case (Inr ls)
    obtain ab w1 where l: "look_aborted env ?w0 = (ab, w1)"
      by (cases "look_aborted env ?w0")
    note g1 = grows_trans[OF g0 grows_look[OF l]]
    show ?thesis
    proof (cases ab)
      case True
      with a Inr l g1 show ?thesis by (auto simp add: plugin_streamChat_def Let_def)
    next
      case False
      with a Inr l have "plugin_stream env ls (fst s, w1) = (e, acc', w')"
        by (simp add: plugin_streamChat_def Let_def)
      from plugin_stream_grows[OF this] obtain es where "grows w1 w' [] es" "no_final_event es"
        by auto
      with grows_trans[OF g1] show ?thesis by fastforce
    qed
  qed
qed

lemma fallback_calls_events:
  "no_final_event (snd s) \<Longrightarrow> no_final_event (snd (fallback_calls i tcs s))"
  by (induction i tcs s rule: fallback_calls.induct) simp_all

lemma plugin_fallback_grows:
  "plugin_fallback response s = (acc', w') \<Longrightarrow> \<exists>es. grows (snd s) w' [] es \<and> no_final_event es"
  using fallback_calls_events[of "(acc_calls (fst s), [])"]
  by (cases "msg_tool_calls response")
     (auto simp add: plugin_fallback_def Let_def split_def grows_def emit_def split: if_splits)

lemma plugin_finish_round_result:
  "\<exists>msg w' es. plugin_finish_round acc (ag, w) =
       (Inr (Some msg), ag\<lparr>ag_messages := ag_messages ag @ [msg]\<rparr>, w') \<and>
     msg_tool_calls msg = plugin_tool_calls (acc_calls acc) \<and>
     grows w w' [] es \<and> no_final_event es"
  by (simp add: plugin_finish_round_def Let_def grows_def emit_def)

text \<open>
  A round of \<^verbatim>\<open>processRound\<close>, however it ends: the messages are kept and at most one is
  pushed, the calls it makes are chat requests with the token it was given, and it emits
  neither a completion nor an error.
\<close>

lemma plugin_processRound_grows:
  assumes "plugin_processRound env token (ag, w) = (r, ag', w')"
  shows "history_grows ag ag' \<and>
     (\<exists>cs es. grows w w' cs es \<and> list_all (is_chat_with token) cs \<and> no_final_event es)"
proof -
  obtain e acc w1 where sc: "plugin_streamChat env token ag (\<lparr>acc_text = [], acc_calls = []\<rparr>, w) = (e, acc, w1)"
    by (cases "plugin_streamChat env token ag (\<lparr>acc_text = [], acc_calls = []\<rparr>, w)") auto
  from plugin_streamChat_grows[OF sc] obtain es1 where
    g1: "grows w w1 [ChatRequest token] es1" "no_final_event es1" by auto
  let ?G = ?thesis
  have fin: "\<And>acc2 w2 cs es. plugin_processRound env token (ag, w) = plugin_finish_round acc2 (ag, w2) \<Longrightarrow>
      grows w w2 cs es \<Longrightarrow> list_all (is_chat_with token) cs \<Longrightarrow> no_final_event es \<Longrightarrow> ?G"
  proof -
    fix acc2 w2 cs es
    assume p: "plugin_processRound env token (ag, w) = plugin_finish_round acc2 (ag, w2)"
      and g: "grows w w2 cs es" and c: "list_all (is_chat_with token) cs" and n: "no_final_event es"
    from plugin_finish_round_result[of acc2 ag w2] obtain msg w3 es3 where
      f: "plugin_finish_round acc2 (ag, w2) = (Inr (Some msg), ag\<lparr>ag_messages := ag_messages ag @ [msg]\<rparr>, w3)"
      and g3: "grows w2 w3 [] es3" "no_final_event es3" by blast
    from p f assms have "ag' = ag\<lparr>ag_messages := ag_messages ag @ [msg]\<rparr>" and "w' = w3"
      by simp_all
    with grows_trans[OF g g3(1)] c n g3(2) history_grows_push[of ag "[msg]"] show ?G
      by fastforce
  qed
  show ?thesis
  proof (cases e)
    case StreamEnded
    with sc have "plugin_processRound env token (ag, w) = plugin_finish_round acc (ag, w1)"
      by (simp add: plugin_processRound_def)
    from fin[OF this g1(1) _ g1(2)] show ?thesis by simp
  next
    case StreamAborted
    with sc assms have "ag' = ag" "w' = w1"
      by (simp_all add: plugin_processRound_def)
    with g1 history_grows_refl show ?thesis by fastforce
  next
    case StreamThrew
    let ?w2 = "record_call (ChatOnce token) w1"
    have g2: "grows w ?w2 ([ChatRequest token] @ [ChatOnce token]) (es1 @ [])"
      by (rule grows_trans[OF g1(1) grows_record_call])
    show ?thesis
    proof (cases "env_chat_once env (length (w_calls w1)) token (ag_model ag) (ag_messages ag)")
      case (Inl x)
      with StreamThrew sc assms have "ag' = ag" "w' = ?w2"
        by (simp_all add: plugin_processRound_def)
      with g2 g1(2) history_grows_refl show ?thesis by fastforce
    next
      case (Inr response)
      obtain acc2 w3 where fb: "plugin_fallback response (acc, ?w2) = (acc2, w3)"
        by (cases "plugin_fallback response (acc, ?w2)")
      from plugin_fallback_grows[OF fb] obtain es3 where
        g3: "grows ?w2 w3 [] es3" "no_final_event es3" by auto
      from StreamThrew sc Inr fb have
        "plugin_processRound env token (ag, w) = plugin_finish_round acc2 (ag, w3)"
        by (simp add: plugin_processRound_def)
      from fin[OF this grows_trans[OF g2 g3(1)]] g1(2) g3(2) show ?thesis by simp
    qed
  qed
qed

lemma plugin_executeToolCalls_grows:
  "plugin_executeToolCalls env vault tcs s = (e, res', w') \<Longrightarrow>
     \<exists>es. grows (snd s) w' [] es \<and> no_final_event es"
proof (induction tcs arbitrary: s)
  case Nil
  then show ?case using grows_refl by fastforce
next
  case (Cons tc tcs)
  obtain ab w1 where l: "look_aborted env (snd s) = (ab, w1)"
    by (cases "look_aborted env (snd s)")
  note g1 = grows_look[OF l]
  show ?case
  proof (cases ab)
    case True
    with Cons.prems l g1 show ?thesis by auto
  next
    case False
    let ?input = "case env_json_parse env (call_arguments tc) of None \<Rightarrow> JObj [] | Some v \<Rightarrow> v"
    obtain out fs1 where x: "plugin_execute env vault (call_name tc) ?input (w_fs w1) = (out, fs1)"
      by (cases "plugin_execute env vault (call_name tc) ?input (w_fs w1)")
    have gfs: "grows w1 (w1\<lparr>w_fs := fs1\<rparr>) [] []"
      by (simp add: grows_def)
    show ?thesis
    proof (cases out)
      case (Result r)
      let ?w2 = "emit [ToolCallComplete (call_id tc) (call_name tc) ?input r] (w1\<lparr>w_fs := fs1\<rparr>)"
      from Cons.prems l False x Result obtain res1 where
        "plugin_executeToolCalls env vault tcs (res1, ?w2) = (e, res', w')"
        by (auto simp add: Let_def)
      from Cons.IH[OF this] obtain es where g3: "grows ?w2 w' [] es" "no_final_event es"
        by auto
      have "grows (snd s) ?w2 [] [ToolCallComplete (call_id tc) (call_name tc) ?input r]"
        using grows_trans[OF grows_trans[OF g1 gfs] grows_emit] by simp
      from grows_trans[OF this g3(1)] g3(2) show ?thesis by fastforce
    next
      case (Thrown x2)
      with Cons.prems l False x grows_trans[OF g1 gfs] show ?thesis by (auto simp add: Let_def)
    next
      case (Escaped x3)
      with Cons.prems l False x grows_trans[OF g1 gfs] show ?thesis by (auto simp add: Let_def)
    qed
  qed
qed

lemma plugin_catch_grows:
  "plugin_catch env x s = (e, ag', w') \<Longrightarrow>
     e = SendReturned \<and> ag' = fst s \<and> (\<exists>es. grows (snd s) w' [] es)"
  by (auto simp add: plugin_catch_def look_aborted_def grows_def emit_def split: if_splits)

text \<open>The rounds of a \<^verbatim>\<open>send\<close> keep the messages and push more; their calls are chat requests.\<close>

lemma plugin_rounds_grows:
  "plugin_rounds env token rounds s = (e, ag', w') \<Longrightarrow>
     history_grows (fst s) ag' \<and> (\<exists>cs es. grows (snd s) w' cs es \<and> list_all (is_chat_with token) cs)"
proof (induction "MAX_TOOL_ROUNDS - rounds" arbitrary: rounds s rule: less_induct)
  case less
  note run = less.prems
  show ?case
  proof (cases "rounds < MAX_TOOL_ROUNDS")
    case False
    with run have "ag' = fst s" "w' = emit [TextDelta max_rounds_notice, Done] (snd s)"
      by (simp_all add: plugin_rounds.simps[of env token rounds s])
    with grows_emit history_grows_refl show ?thesis by fastforce
  next
    case True
    obtain ab w1 where l1: "look_aborted env (snd s) = (ab, w1)"
      by (cases "look_aborted env (snd s)")
    note g1 = grows_look[OF l1]
    show ?thesis
    proof (cases ab)
      case True
      with run \<open>rounds < MAX_TOOL_ROUNDS\<close> l1 have "ag' = fst s" "w' = w1"
        by (simp_all add: plugin_rounds.simps[of env token rounds s])
      with g1 history_grows_refl show ?thesis by fastforce
    next
      case False
      obtain r ag2 w2 where pr: "plugin_processRound env token (fst s, w1) = (r, ag2, w2)"
        by (cases "plugin_processRound env token (fst s, w1)")
      from plugin_processRound_grows[OF pr] obtain cs2 es2 where
        h2: "history_grows (fst s) ag2" and g2: "grows w1 w2 cs2 es2"
        and c2: "list_all (is_chat_with token) cs2" by blast
      note g12 = grows_trans[OF g1 g2]
      have stop: "ag' = ag2 \<Longrightarrow> grows w2 w' [] es \<Longrightarrow> ?thesis" for es
        using h2 grows_trans[OF g12, of w' "[]" es] c2 by fastforce
      note unfold = plugin_rounds.simps[of env token rounds s]
      show ?thesis
      proof (cases r)
        case (Inl x)
        with run True l1 False pr have "plugin_catch env x (ag2, w2) = (e, ag', w')"
          by (simp add: unfold)
        from plugin_catch_grows[OF this] stop show ?thesis by auto
      next
        case (Inr mo)
        show ?thesis
        proof (cases mo)
          case None
          with run True l1 False pr Inr have "ag' = ag2" "w' = w2"
            by (simp_all add: unfold)
          with stop[of "[]"] grows_refl show ?thesis by simp
        next
          case (Some msg)
          show ?thesis
          proof (cases "msg_tool_calls msg = None \<or> msg_tool_calls msg = Some []")
            case True
            with run \<open>rounds < MAX_TOOL_ROUNDS\<close> l1 False pr Inr Some
            have "ag' = ag2" "w' = emit [Done] w2"
              by (auto simp add: unfold)
            with stop[of "[Done]"] grows_emit show ?thesis by simp
          next
            case calls: False
            then obtain tcs where tcs: "msg_tool_calls msg = Some tcs" "tcs \<noteq> []"
              by auto
            obtain e3 res w3 where ex:
              "plugin_executeToolCalls env (ag_vault ag2) tcs ([], w2) = (e3, res, w3)"
              by (cases "plugin_executeToolCalls env (ag_vault ag2) tcs ([], w2)")
            from plugin_executeToolCalls_grows[OF ex] obtain es3 where
              g3: "grows w2 w3 [] es3" by auto
            show ?thesis
            proof (cases e3)
              case SendHangs
              with run True l1 False pr Inr Some tcs ex have "ag' = ag2" "w' = w3"
                by (simp_all add: unfold)
              with stop g3 show ?thesis by simp
            next
              case SendReturned
              obtain ab4 w4 where l4: "look_aborted env w3 = (ab4, w4)"
                by (cases "look_aborted env w3")
              note g4 = grows_trans[OF g3 grows_look[OF l4]]
              show ?thesis
              proof (cases ab4)
                case True
                with run \<open>rounds < MAX_TOOL_ROUNDS\<close> l1 False pr Inr Some tcs ex SendReturned l4
                have "ag' = ag2" "w' = w4"
                  by (simp_all add: unfold)
                with stop g4 show ?thesis by simp
              next
                case nab: False
                let ?ag5 = "ag2\<lparr>ag_messages := ag_messages ag2 @ res\<rparr>"
                from run True l1 False pr Inr Some tcs ex SendReturned l4 nab
                have rec: "plugin_rounds env token (Suc rounds) (?ag5, w4) = (e, ag', w')"
                  by (simp add: unfold)
                have "MAX_TOOL_ROUNDS - Suc rounds < MAX_TOOL_ROUNDS - rounds"
                  using True by simp
                from less.hyps[OF this rec] obtain cs5 es5 where
                  h5: "history_grows ?ag5 ag'" and g5: "grows w4 w' cs5 es5"
                  and c5: "list_all (is_chat_with token) cs5" by auto
                have "history_grows (fst s) ag'"
                  using history_grows_trans[OF h2 history_grows_trans[OF history_grows_push h5]] .
                moreover have "grows (snd s) w' (([] @ cs2) @ ([] @ []) @ cs5) (([] @ es2) @ (es3 @ []) @ es5)"
                  using grows_trans[OF g12 grows_trans[OF g4 g5]] .
                ultimately show ?thesis using c2 c5 by fastforce
              qed
            qed
          qed
        qed
      qed
    qed
  qed
qed

lemma ensureToken_grows:
  "ensureToken env (ag, w) = (r, ag', w') \<Longrightarrow>
     history_grows ag ag' \<and> (\<exists>cs. grows w w' cs [] \<and> list_all is_token_call cs)"
  by (auto simp add: ensureToken_def isTokenExpired_def fetchCopilotToken_def record_call_def
        grows_def history_grows_def Let_def split: option.splits if_splits sum.splits prod.splits)

text \<open>A whole \<^verbatim>\<open>send\<close>: what was in the history is still there, at the same places.\<close>

lemma send_grows:
  assumes "send env userMessage (ag, w) = (e, ag', w')"
  shows "history_grows ag ag'"
proof -
  let ?ag1 = "ag\<lparr>ag_messages := ag_messages ag
                   @ [\<lparr>msg_role = RoleUser, msg_content = Some userMessage, msg_tool_calls = None,
                       msg_tool_call_id = None\<rparr>]\<rparr>"
  let ?w1 = "w\<lparr>w_abort_looks := 0\<rparr>"
  obtain r ag2 w2 where et: "ensureToken env (?ag1, ?w1) = (r, ag2, w2)"
    by (cases "ensureToken env (?ag1, ?w1)")
  from ensureToken_grows[OF et] have h2: "history_grows ag ag2"
    using history_grows_trans[OF history_grows_push] by blast
  show ?thesis
  proof (cases r)
    case (Inl x)
    with assms et have "plugin_catch env x (ag2, w2) = (e, ag', w')"
      by (simp add: send_def)
    from plugin_catch_grows[OF this] h2 show ?thesis by simp
  next
    case (Inr token)
    with assms et have "plugin_rounds env token 0 (ag2, w2) = (e, ag', w')"
      by (simp add: send_def)
    from plugin_rounds_grows[OF this] h2 history_grows_trans show ?thesis by fastforce
  qed
qed

lemma reachable_invariant:
  "reachable ag \<Longrightarrow> getMessages ag \<noteq> [] \<and> hd (getMessages ag) = system_message"
proof (induction rule: reachable.induct)
  case (reach_new vaultPath pat model)
  show ?case by (simp add: new_AgentLoop_def getMessages_def)
next
  case (reach_setModel ag model)
  then show ?case by (simp add: setModel_def getMessages_def)
next
  case (reach_clearHistory ag)
  show ?case by (simp add: clearHistory_def getMessages_def)
next
  case (reach_send ag env userMessage w)
  obtain e ag' w' where s: "send env userMessage (ag, w) = (e, ag', w')"
    by (cases "send env userMessage (ag, w)")
  from send_grows[OF s] have "prefix (ag_messages ag) (ag_messages ag')"
    by (simp add: history_grows_def)
  with reach_send.IH s show ?case
    by (auto simp add: getMessages_def prefix_def)
qed



subsection \<open>The history of an \<^verbatim>\<open>AgentLoop\<close>\<close>

text \<open>
  C10. The message list of an \<^verbatim>\<open>AgentLoop\<close> is never empty and starts with the system-prompt
  message. The constructor sets it to exactly that message and \<^verbatim>\<open>clearHistory\<close> resets it to
  exactly that message; \<^verbatim>\<open>setModel\<close> leaves it alone; \<^verbatim>\<open>send\<close> and \<^verbatim>\<open>processRound\<close> only push
  messages, whatever the model, the tools and the clock do and whenever the run is
  cancelled: the list before is a prefix of the list after. Hence every \<^verbatim>\<open>AgentLoop\<close> that
  can be reached from the constructor by \<^verbatim>\<open>setModel\<close>, \<^verbatim>\<open>clearHistory\<close> and \<^verbatim>\<open>send\<close> has a
  non-empty list whose first message is the system prompt.
\<close>

theorem history_invariant:
  "getMessages (new_AgentLoop vaultPath pat model) = [system_message] \<and>
   getMessages (clearHistory agC) = [system_message] \<and>
   getMessages (setModel m agC) = getMessages agC \<and>
   prefix (getMessages agS) (getMessages (fst (snd (send env userMessage (agS, wS))))) \<and>
   prefix (getMessages agR) (getMessages (fst (snd (plugin_processRound env token (agR, wR))))) \<and>
   (reachable ag \<longrightarrow> getMessages ag \<noteq> [] \<and> hd (getMessages ag) = system_message)"
proof -
  obtain e ag' w' where s: "send env userMessage (agS, wS) = (e, ag', w')"
    by (cases "send env userMessage (agS, wS)")
  obtain r ag'' w'' where p: "plugin_processRound env token (agR, wR) = (r, ag'', w'')"
    by (cases "plugin_processRound env token (agR, wR)")
  have "prefix (getMessages agS) (getMessages (fst (snd (send env userMessage (agS, wS)))))"
    using send_grows[OF s] s by (simp add: history_grows_def getMessages_def)
  moreover have "prefix (getMessages agR) (getMessages (fst (snd (plugin_processRound env token (agR, wR)))))"
    using plugin_processRound_grows[OF p] p by (simp add: history_grows_def getMessages_def)
  ultimately show ?thesis
    using reachable_invariant[of ag]
    by (simp add: new_AgentLoop_def clearHistory_def setModel_def getMessages_def)
qed

text \<open>
  The theorem at the \<^verbatim>\<open>AgentLoop\<close> of a \<^verbatim>\<open>send\<close> that was cancelled after the first chunk of the
  answer: it is reachable, and its list is the system prompt, the user message and the
  partial answer.
\<close>

theorem history_invariant_witness:
  "reachable (fst (snd (send (cancel_env 4) ''q'' (agent0, world0)))) \<and>
   getMessages (fst (snd (send (cancel_env 4) ''q'' (agent0, world0)))) \<noteq> [] \<and>
   hd (getMessages (fst (snd (send (cancel_env 4) ''q'' (agent0, world0))))) = system_message \<and>
   prefix (getMessages agent0) (getMessages (fst (snd (send (cancel_env 4) ''q'' (agent0, world0))))) \<and>
   drop 1 (getMessages (fst (snd (send (cancel_env 4) ''q'' (agent0, world0))))) =
     [user_message ''q'', assistant_text (Some ''Hello'')]"
proof -
  have r: "reachable (fst (snd (send (cancel_env 4) ''q'' (agent0, world0))))"
    unfolding agent0_def by (rule reach_send[OF reach_new])
  have v: "drop 1 (getMessages (fst (snd (send (cancel_env 4) ''q'' (agent0, world0))))) =
     [user_message ''q'', assistant_text (Some ''Hello'')]"
    by code_simp
  note inst = history_invariant[where ag = "fst (snd (send (cancel_env 4) ''q'' (agent0, world0)))"
      and agS = agent0 and env = "cancel_env 4" and userMessage = "''q''" and wS = world0]
  from inst r have "getMessages (fst (snd (send (cancel_env 4) ''q'' (agent0, world0)))) \<noteq> [] \<and>
      hd (getMessages (fst (snd (send (cancel_env 4) ''q'' (agent0, world0))))) = system_message"
    by blast
  moreover from inst have
    "prefix (getMessages agent0) (getMessages (fst (snd (send (cancel_env 4) ''q'' (agent0, world0)))))"
    by blast
  ultimately show ?thesis using r v by blast
qed

subsection \<open>Cancelling a \<^verbatim>\<open>send\<close>\<close>

text \<open>
  C5. Cancelling during a round is meant to leave the history as it was when the round
  began and to emit no completion. \<^verbatim>\<open>processRound\<close> does return \<^verbatim>\<open>null\<close> when it sees the signal
  in the body of its loop, but \<^verbatim>\<open>streamChat\<close> looks at the signal first and, when it is set,
  returns: the \<^verbatim>\<open>for await\<close> then ends as if the stream were complete. Two runs of
  \<^verbatim>\<open>send(''q'')\<close> on a new \<^verbatim>\<open>AgentLoop\<close>, the messages after the system prompt and all events:
  with \<^verbatim>\<open>cancel()\<close> called while the request is in flight, an assistant message with
  \<^verbatim>\<open>content: null\<close> is pushed after the user message and \<^verbatim>\<open>onDone\<close> is called; with \<^verbatim>\<open>cancel()\<close>
  called while the first of two chunks is handled, the partial answer is pushed and
  \<^verbatim>\<open>onTextDone\<close> and \<^verbatim>\<open>onDone\<close> are called. \<^verbatim>\<open>CopilotService.query\<close>, cancelled when the first of
  the two pieces of the same answer has been read, pushes no message and yields no
  completion: the read that was pending rejects, and the round ends with that error.
\<close>

theorem cancelled_round_is_completed:
  "drop 1 (getMessages (fst (snd (send (cancel_env 1) ''q'' (agent0, world0))))) =
     [user_message ''q'', assistant_text None] \<and>
   w_events (snd (snd (send (cancel_env 1) ''q'' (agent0, world0)))) = [Done] \<and>
   drop 1 (getMessages (fst (snd (send (cancel_env 4) ''q'' (agent0, world0))))) =
     [user_message ''q'', assistant_text (Some ''Hello'')] \<and>
   w_events (snd (snd (send (cancel_env 4) ''q'' (agent0, world0)))) =
     [TextDelta ''Hello'', TextDone ''Hello'', Done] \<and>
   fst (snd (snd (query (cancel_env 3) [user_message ''q''] (service0, world0)))) =
     [user_message ''q''] \<and>
   w_events (snd (snd (snd (query (cancel_env 3) [user_message ''q''] (service0, world0))))) =
     [TextDelta ''Hello'', ErrorEvent ''The user aborted a request.'']"
  by code_simp

subsection \<open>Helpers: the steps of \<^verbatim>\<open>query\<close>\<close>

lemma service_chunk_grows:
  "service_chunk env chunk s = (r, acc', w') \<Longrightarrow> \<exists>es. grows (snd s) w' [] es \<and> no_final_event es"
  by (auto simp add: service_chunk_def Let_def split_def grows_def emit_def
      split: option.splits list.splits if_splits)

lemma service_lines_grows:
  "service_lines env ls s = (r, acc', w') \<Longrightarrow> \<exists>es. grows (snd s) w' [] es \<and> no_final_event es"
proof (induction ls arbitrary: s)
  case Nil
  then show ?case using grows_refl by fastforce
next
  case (Cons line rest)
  show ?case
  proof (cases line)
    case SkipLine
    with Cons show ?thesis by simp
  next
    case DoneLine
    with Cons show ?thesis by simp
  next
    case (DataLine chunk)
    obtain r1 a1 w1 where c: "service_chunk env chunk s = (r1, a1, w1)"
      by (cases "service_chunk env chunk s")
    from service_chunk_grows[OF c] obtain es1 where
      g1: "grows (snd s) w1 [] es1" "no_final_event es1" by auto
    show ?thesis
    proof (cases r1)
      case None
      with Cons.prems DataLine c have "service_lines env rest (a1, w1) = (r, acc', w')"
        by simp
      from Cons.IH[OF this] obtain es where "grows w1 w' [] es" "no_final_event es"
        by auto
      with grows_trans[OF g1(1)] g1(2) show ?thesis by fastforce
    next
      case (Some x)
      with Cons.prems DataLine c g1 show ?thesis by auto
    qed
  qed
qed

lemma service_look_grows:
  "(if has_signal then look_aborted env w else (False, w)) = (ab, w1) \<Longrightarrow> grows w w1 [] []"
  by (auto simp add: grows_def look_aborted_def split: if_splits)

lemma service_reads_grows:
  "service_reads env has_signal reads final s = (r, acc', w') \<Longrightarrow>
     \<exists>es. grows (snd s) w' [] es \<and> no_final_event es"
proof (induction reads arbitrary: s)
  case Nil
  obtain ab w1 where l: "(if has_signal then look_aborted env (snd s) else (False, snd s)) = (ab, w1)"
    by (cases "if has_signal then look_aborted env (snd s) else (False, snd s)")
  with Nil have "w' = w1" by (auto split: if_splits)
  with service_look_grows[OF l] show ?case by fastforce
next
  case (Cons ls rest)
  obtain ab w1 where l: "(if has_signal then look_aborted env (snd s) else (False, snd s)) = (ab, w1)"
    by (cases "if has_signal then look_aborted env (snd s) else (False, snd s)")
  note g1 = service_look_grows[OF l]
  show ?case
  proof (cases ab)
    case True
    with Cons.prems l have "w' = w1" by simp
    with g1 show ?thesis by fastforce
  next
    case False
    obtain r2 a2 w2 where sl: "service_lines env ls (fst s, w1) = (r2, a2, w2)"
      by (cases "service_lines env ls (fst s, w1)")
    from service_lines_grows[OF sl] obtain es2 where
      g2: "grows w1 w2 [] es2" "no_final_event es2" by auto
    note g12 = grows_trans[OF g1 g2(1)]
    show ?thesis
    proof (cases r2)
      case None
      with Cons.prems l False sl have "service_reads env has_signal rest final (a2, w2) = (r, acc', w')"
        by simp
      from Cons.IH[OF this] obtain es where "grows w2 w' [] es" "no_final_event es"
        by auto
      with grows_trans[OF g12] g2(2) show ?thesis by fastforce
    next
      case (Some x)
      with Cons.prems l False sl have "w' = w2" by simp
      with g12 g2(2) show ?thesis by fastforce
    qed
  qed
qed

lemma abortController_now_grows: "abortController_now env w = (ctl, w1) \<Longrightarrow> grows w w1 [] []"
  by (auto simp add: abortController_now_def look_aborted_def grows_def Let_def)

lemma service_streamChat_grows:
  assumes "service_streamChat env token sv messages s = (r, acc', w')"
  shows "\<exists>es. grows (snd s) w' [ChatRequest token] es \<and> no_final_event es"
proof -
  obtain ctl w0 where c: "abortController_now env (snd s) = (ctl, w0)"
    by (cases "abortController_now env (snd s)")
  let ?w1 = "record_call (ChatRequest token) w0"
  obtain ab w2 where l: "(if ctl \<noteq> None then look_aborted env ?w1 else (False, ?w1)) = (ab, w2)"
    by (cases "if ctl \<noteq> None then look_aborted env ?w1 else (False, ?w1)")
  have g: "grows (snd s) w2 [ChatRequest token] []"
    using grows_trans[OF grows_trans[OF abortController_now_grows[OF c] grows_record_call]
        service_look_grows[OF l]] by simp
  show ?thesis
  proof (cases ab)
    case True
    with assms c l have "w' = w2" by (simp add: service_streamChat_def Let_def)
    with g show ?thesis by fastforce
  next
    case False
    show ?thesis
    proof (cases "env_chat_fetch env (length (w_calls w0)) token (sv_selectedModel sv) messages")
      case (Inl x)
      with assms c l False have "w' = w2" by (simp add: service_streamChat_def Let_def)
      with g show ?thesis by fastforce
    next
      case (Inr body)
      obtain reads final where b: "body = (reads, final)" by (cases body)
      with assms c l False Inr have
        "service_reads env (ctl \<noteq> None) reads final (fst s, w2) = (r, acc', w')"
        by (simp add: service_streamChat_def Let_def)
      from service_reads_grows[OF this] obtain es where "grows w2 w' [] es" "no_final_event es"
        by auto
      with grows_trans[OF g] show ?thesis by fastforce
    qed
  qed
qed

text \<open>A round of \<^verbatim>\<open>streamOneRound\<close>, however it ends: one chat request, no completion, no error.\<close>

lemma streamOneRound_grows:
  assumes "streamOneRound env token sv messages w = (rr, w')"
  shows "\<exists>es. grows w w' [ChatRequest token] es \<and> no_final_event es"
proof -
  obtain r acc w1 where sc:
    "service_streamChat env token sv messages (\<lparr>acc_text = [], acc_calls = []\<rparr>, w) = (r, acc, w1)"
    by (cases "service_streamChat env token sv messages (\<lparr>acc_text = [], acc_calls = []\<rparr>, w)") auto
  from service_streamChat_grows[OF sc] obtain es1 where
    g1: "grows w w1 [ChatRequest token] es1" "no_final_event es1" by auto
  show ?thesis
  proof (cases r)
    case None
    with assms sc have "w' = w1" by (simp add: streamOneRound_def)
    with g1 show ?thesis by fastforce
  next
    case (Some x)
    obtain ctl w2 where c: "abortController_now env w1 = (ctl, w2)"
      by (cases "abortController_now env w1")
    with assms sc Some have "w' = w2"
      by (auto simp add: streamOneRound_def split: if_splits)
    with grows_trans[OF g1(1) abortController_now_grows[OF c]] g1(2) show ?thesis by fastforce
  qed
qed

lemma service_tools_grows:
  "service_tools env sv tcs s = (e, ms', w') \<Longrightarrow>
     e = SendReturned \<and> (\<exists>es. grows (snd s) w' [] es \<and> no_final_event es)"
proof (induction tcs arbitrary: s)
  case Nil
  then show ?case using grows_refl by fastforce
next
  case (Cons tc tcs)
  let ?args = "case env_json_parse env (call_arguments tc) of None \<Rightarrow> JObj [] | Some v \<Rightarrow> v"
  let ?w1 = "emit [ToolUse (call_id tc) (call_name tc) ?args] (snd s)"
  obtain r fs1 where x:
    "service_execute (sv_names sv) env (sv_vault sv) (call_name tc) ?args (w_fs ?w1) = (Result r, fs1)"
    using service_execute_returns by blast
  let ?w2 = "emit [ToolResult (call_id tc) (result_content r) (isError r)] (?w1\<lparr>w_fs := fs1\<rparr>)"
  have g: "grows (snd s) ?w2 [] [ToolUse (call_id tc) (call_name tc) ?args,
      ToolResult (call_id tc) (result_content r) (isError r)]"
    by (simp add: grows_def emit_def)
  from Cons.prems x obtain ms1 where "service_tools env sv tcs (ms1, ?w2) = (e, ms', w')"
    by (simp add: Let_def)
  from Cons.IH[OF this] obtain es where "e = SendReturned" "grows ?w2 w' [] es" "no_final_event es"
    by auto
  with grows_trans[OF g] show ?case by fastforce
qed

lemma isTokenExpired_grows:
  "isTokenExpired env x w = (b, w') \<Longrightarrow> grows w w' [ExpiryCheck b] []"
  by (auto simp add: isTokenExpired_def record_call_def grows_def Let_def)

lemma ensureCopilotToken_grows:
  "ensureCopilotToken env (sv, w) = (r, sv', w') \<Longrightarrow>
     sv_pat sv' = sv_pat sv \<and> (\<exists>cs. grows w w' cs [] \<and> list_all is_token_call cs)"
  by (auto simp add: ensureCopilotToken_def isTokenExpired_def fetchCopilotToken_def record_call_def
        grows_def Let_def split: option.splits if_splits sum.splits prod.splits)

lemma ensureCopilotToken_granted:
  assumes "token_always_granted env (sv_pat sv)"
  shows "\<exists>t. fst (ensureCopilotToken env (sv, w)) = Inr t"
proof -
  obtain fresh w1 where p:
    "(case sv_copilotToken sv of
        None \<Rightarrow> (False, w)
      | Some t \<Rightarrow> (let (expired, w') = isTokenExpired env (tok_expiresAt t) w in (\<not> expired, w'))) =
     (fresh, w1)"
    by (cases "case sv_copilotToken sv of
        None \<Rightarrow> (False, w)
      | Some t \<Rightarrow> (let (expired, w') = isTokenExpired env (tok_expiresAt t) w in (\<not> expired, w'))")
  from assms obtain t where "env_fetch_token env (length (w_calls w1)) (sv_pat sv) = Inr t"
    unfolding token_always_granted_def by blast
  with p show ?thesis
    by (cases fresh) (simp_all add: ensureCopilotToken_def fetchCopilotToken_def)
qed

lemma rounds_run_append [simp]: "rounds_run (xs @ ys) = rounds_run xs + rounds_run ys"
  by (simp add: rounds_run_def)

lemma rounds_run_token_calls: "list_all is_token_call cs \<Longrightarrow> rounds_run cs = 0"
proof (induction cs)
  case Nil
  show ?case by (simp add: rounds_run_def)
next
  case (Cons c cs)
  then show ?case by (cases c) (simp_all add: rounds_run_def)
qed

subsection \<open>The token of a \<^verbatim>\<open>send\<close>\<close>

text \<open>
  \<^verbatim>\<open>send\<close> asks for the token before its first round and never again: the calls of a \<^verbatim>\<open>send\<close>
  are calls about the token followed by chat requests that all carry one token.
\<close>

lemma send_token_once:
  assumes "send env userMessage (ag, w) = (e, ag', w')"
  shows "\<exists>cs1 cs2 token es. grows w w' (cs1 @ cs2) es \<and> list_all is_token_call cs1 \<and>
     list_all (is_chat_with token) cs2"
proof -
  let ?ag1 = "ag\<lparr>ag_messages := ag_messages ag
                   @ [\<lparr>msg_role = RoleUser, msg_content = Some userMessage, msg_tool_calls = None,
                       msg_tool_call_id = None\<rparr>]\<rparr>"
  let ?w1 = "w\<lparr>w_abort_looks := 0\<rparr>"
  have g0: "grows w ?w1 [] []" by (simp add: grows_def)
  obtain r ag2 w2 where et: "ensureToken env (?ag1, ?w1) = (r, ag2, w2)"
    by (cases "ensureToken env (?ag1, ?w1)")
  from ensureToken_grows[OF et] obtain cs1 where
    g1: "grows ?w1 w2 cs1 []" and t1: "list_all is_token_call cs1" by blast
  note g01 = grows_trans[OF g0 g1]
  show ?thesis
  proof (cases r)
    case (Inl x)
    with assms et have "plugin_catch env x (ag2, w2) = (e, ag', w')"
      by (simp add: send_def)
    from plugin_catch_grows[OF this] obtain es where "grows w2 w' [] es" by auto
    from grows_trans[OF g01 this] t1 show ?thesis
      by (rule_tac x = cs1 in exI, rule_tac x = "[]" in exI) auto
  next
    case (Inr token)
    with assms et have "plugin_rounds env token 0 (ag2, w2) = (e, ag', w')"
      by (simp add: send_def)
    from plugin_rounds_grows[OF this] obtain cs2 es where
      "grows w2 w' cs2 es" "list_all (is_chat_with token) cs2" by auto
    with grows_trans[OF g01] t1 show ?thesis
      by (rule_tac x = cs1 in exI, rule_tac x = cs2 in exI, rule_tac x = token in exI) auto
  qed
qed

text \<open>
  C9. The expiry of the credential is meant to be looked at again before every round after
  the first. \<^verbatim>\<open>AgentLoop.send\<close> calls \<^verbatim>\<open>ensureToken\<close> once, before its loop, and keeps the
  string it got. Here the token the \<^verbatim>\<open>AgentLoop\<close> holds is judged good when \<^verbatim>\<open>send\<close> starts and
  has run out when the tools of the first round are done: the second chat request is made
  with the same token, nothing looks at the expiry between the two requests, and
  \<^verbatim>\<open>isTokenExpired\<close> says afterwards that the token the \<^verbatim>\<open>AgentLoop\<close> still holds is expired.
  \<^verbatim>\<open>CopilotService.query\<close>, in the same situation, looks at the expiry after the tools of
  the first round, fetches a token and makes its second request with the new one.
\<close>

theorem send_keeps_expired_token:
  "w_calls (snd (snd (send aging_env ''q'' (agent1, world0)))) =
     [ExpiryCheck False, ChatRequest ''t1'', ChatRequest ''t1''] \<and>
   \<not> refreshed False (w_calls (snd (snd (send aging_env ''q'' (agent1, world0))))) \<and>
   ag_token (fst (snd (send aging_env ''q'' (agent1, world0)))) =
     Some \<lparr>tok_token = ''t1'', tok_expiresAt = 1000\<rparr> \<and>
   fst (isTokenExpired aging_env 1000 (snd (snd (send aging_env ''q'' (agent1, world0))))) \<and>
   w_calls (snd (snd (snd (query aging_env [user_message ''q''] (service1, world0))))) =
     [ExpiryCheck False, ChatRequest ''t1'', ExpiryCheck True, ExpiryCheck True, TokenFetch ''pat'',
      ChatRequest ''t2''] \<and>
   refreshed False (w_calls (snd (snd (snd (query aging_env [user_message ''q''] (service1, world0))))))"
  by code_simp

subsection \<open>Helpers: a model that always asks for a tool call\<close>

lemma service_chunk_ok:
  "(case chunk of Some (None # rest) \<Rightarrow> False | _ \<Rightarrow> True) \<Longrightarrow> fst (service_chunk env chunk s) = None"
  by (auto simp add: service_chunk_def Let_def split_def split: option.splits list.splits)

lemma service_lines_ok:
  "list_all (\<lambda>line. case line of DataLine (Some (None # rest)) \<Rightarrow> False | _ \<Rightarrow> True) ls \<Longrightarrow>
     fst (service_lines env ls s) = None"
proof (induction ls arbitrary: s)
  case Nil
  show ?case by simp
next
  case (Cons line rest)
  show ?case
  proof (cases line)
    case SkipLine
    with Cons show ?thesis by simp
  next
    case DoneLine
    with Cons show ?thesis by simp
  next
    case (DataLine chunk)
    with Cons.prems have "case chunk of Some (None # rest) \<Rightarrow> False | _ \<Rightarrow> True"
      by simp
    from service_chunk_ok[OF this, of env s] obtain a1 w1 where
      "service_chunk env chunk s = (None, a1, w1)"
      by (cases "service_chunk env chunk s") auto
    with Cons DataLine show ?thesis by simp
  qed
qed

lemma service_reads_ok:
  "env_cancel_after env = None \<Longrightarrow> service_well_shaped reads \<Longrightarrow>
     fst (service_reads env has_signal reads None s) = None"
proof (induction reads arbitrary: s)
  case Nil
  then show ?case by (simp add: look_aborted_never)
next
  case (Cons ls rest)
  let ?w1 = "if has_signal then (snd s)\<lparr>w_abort_looks := Suc (w_abort_looks (snd s))\<rparr> else snd s"
  from Cons.prems have ok: "list_all (\<lambda>line. case line of DataLine (Some (None # rest)) \<Rightarrow> False | _ \<Rightarrow> True) ls"
    and rest: "service_well_shaped rest"
    by (simp_all add: service_well_shaped_def)
  from service_lines_ok[OF ok, of env "(fst s, ?w1)"] obtain a2 w2 where
    sl: "service_lines env ls (fst s, ?w1) = (None, a2, w2)"
    by (cases "service_lines env ls (fst s, ?w1)") auto
  from Cons.IH[OF Cons.prems(1) rest, of "(a2, w2)"] sl Cons.prems(1) show ?case
    by (cases has_signal) (simp_all add: look_aborted_never)
qed

lemma streamOneRound_calls:
  assumes "env_cancel_after env = None" and "service_model_always_calls env"
  shows "\<exists>rr w'. streamOneRound env token sv messages w = (rr, w') \<and> \<not> rr_aborted rr \<and>
     rr_error rr = None \<and> rr_toolCalls rr \<noteq> []"
proof -
  from assms(2) obtain reads where
    fetch: "env_chat_fetch env (length (w_calls w)) token (sv_selectedModel sv) messages = Inr (reads, None)"
    and ws: "service_well_shaped reads" and ne: "service_stream_fragments reads \<noteq> []"
    unfolding service_model_always_calls_def by blast
  have "fst (service_streamChat env token sv messages (\<lparr>acc_text = [], acc_calls = []\<rparr>, w)) = None"
    using fetch
    by (simp add: service_streamChat_def abortController_now_def look_aborted_never[OF assms(1)]
        Let_def record_call_def service_reads_ok[OF assms(1) ws])
  then obtain acc w1 where sc:
    "service_streamChat env token sv messages (\<lparr>acc_text = [], acc_calls = []\<rparr>, w) = (None, acc, w1)"
    by (cases "service_streamChat env token sv messages (\<lparr>acc_text = [], acc_calls = []\<rparr>, w)") auto
  then have so: "streamOneRound env token sv messages w =
      (\<lparr>rr_textContent = acc_text acc, rr_toolCalls = service_tool_calls (acc_calls acc),
        rr_error = None, rr_aborted = False\<rparr>, w1)"
    by (simp add: streamOneRound_def)
  then have "rr_error (fst (streamOneRound env token sv messages w)) = None"
    by simp
  from streamOneRound_streamed[OF fetch this] have
    "rr_toolCalls (fst (streamOneRound env token sv messages w)) =
       map (\<lambda>i. declared_call
                   (service_final_id (env_clock env) (w_clock_reads w) i (service_stream_fragments reads))
                   i (service_stream_fragments reads))
         (sorted_list_of_set (tc_index ` set (service_stream_fragments reads)))"
    by (simp add: service_descriptors)
  moreover have "sorted_list_of_set (tc_index ` set (service_stream_fragments reads)) \<noteq> []"
  proof
    assume "sorted_list_of_set (tc_index ` set (service_stream_fragments reads)) = []"
    then have "set (sorted_list_of_set (tc_index ` set (service_stream_fragments reads))) = {}"
      by simp
    then have "tc_index ` set (service_stream_fragments reads) = {}"
      by simp
    with ne show False by simp
  qed
  ultimately have "rr_toolCalls (fst (streamOneRound env token sv messages w)) \<noteq> []"
    by simp
  with so show ?thesis by simp
qed

text \<open>
  \<^verbatim>\<open>query\<close> with such a model: from round \<open>round\<close> on, the loop makes one chat request for each
  round up to the cap and then yields the error, having yielded no completion and no
  other error.
\<close>

lemma service_rounds_cap:
  "env_cancel_after env = None \<Longrightarrow> service_model_always_calls env \<Longrightarrow>
   token_always_granted env (sv_pat sv) \<Longrightarrow> round \<le> MAX_TOOL_ROUNDS \<Longrightarrow>
   service_rounds env token round (sv, messages, w) = (e, sv', ms', w') \<Longrightarrow>
     e = SendReturned \<and>
     (\<exists>cs es. grows w w' cs
                 (es @ [ErrorEvent (''Max tool rounds ('' @ string_of_int (int MAX_TOOL_ROUNDS) @ '') exceeded'')]) \<and>
        rounds_run cs = MAX_TOOL_ROUNDS - round \<and> no_final_event es)"
proof (induction "MAX_TOOL_ROUNDS - round" arbitrary: round token sv messages w rule: less_induct)
  case less
  note quiet = less.prems(1) and busy = less.prems(2) and granted = less.prems(3)
    and run = less.prems(5)
  let ?err = "ErrorEvent (''Max tool rounds ('' @ string_of_int (int MAX_TOOL_ROUNDS) @ '') exceeded'')"
  note unfold = service_rounds.simps[of env token round "(sv, messages, w)"]
  show ?case
  proof (cases "round < MAX_TOOL_ROUNDS")
    case False
    with run have "e = SendReturned" "w' = emit [?err] w"
      by (simp_all add: unfold)
    moreover from False less.prems(4) have "MAX_TOOL_ROUNDS - round = 0" by simp
    ultimately show ?thesis
      using grows_emit[of w "[?err]"]
      by (intro conjI exI[of _ "[]"]) (simp_all add: rounds_run_def)
  next
    case True
    from streamOneRound_calls[OF quiet busy, of token sv messages w] obtain rr w1 where
      so: "streamOneRound env token sv messages w = (rr, w1)"
      and ok: "\<not> rr_aborted rr" "rr_error rr = None" "rr_toolCalls rr \<noteq> []" by blast
    from streamOneRound_grows[OF so] obtain es1 where
      g1: "grows w w1 [ChatRequest token] es1" and n1: "no_final_event es1" by auto
    let ?ms1 = "messages
                  @ [\<lparr>msg_role = RoleAssistant,
                      msg_content = (if rr_textContent rr \<noteq> [] then Some (rr_textContent rr) else None),
                      msg_tool_calls = Some (rr_toolCalls rr),
                      msg_tool_call_id = None\<rparr>]"
    obtain e2 ms2 w2 where st: "service_tools env sv (rr_toolCalls rr) (?ms1, w1) = (e2, ms2, w2)"
      by (cases "service_tools env sv (rr_toolCalls rr) (?ms1, w1)")
    from service_tools_grows[OF st] obtain es2 where
      e2: "e2 = SendReturned" and g2: "grows w1 w2 [] es2" and n2: "no_final_event es2" by auto
    note g12 = grows_trans[OF g1 g2]
    have less': "MAX_TOOL_ROUNDS - Suc round < MAX_TOOL_ROUNDS - round"
      using True by simp
    have next_round: ?thesis
      if r: "service_rounds env token3 (Suc round) (sv3, ms2, w3) = (e, sv', ms', w')"
        and p: "sv_pat sv3 = sv_pat sv" and g3: "grows w2 w3 cs3 []" and t3: "list_all is_token_call cs3"
      for token3 sv3 w3 cs3
    proof -
      from granted p have "token_always_granted env (sv_pat sv3)" by simp
      from less.hyps[OF less' quiet busy this _ r] True obtain cs es where
        e: "e = SendReturned" and g: "grows w3 w' cs (es @ [?err])"
        and c: "rounds_run cs = MAX_TOOL_ROUNDS - Suc round" and n: "no_final_event es"
        by auto
      have "grows w w' ((([ChatRequest token] @ []) @ cs3) @ cs) (((es1 @ es2) @ []) @ es @ [?err])"
        using grows_trans[OF grows_trans[OF g12 g3] g] .
      then have "grows w w' ((([ChatRequest token] @ []) @ cs3) @ cs) ((es1 @ es2 @ es) @ [?err])"
        by simp
      moreover have "rounds_run ((([ChatRequest token] @ []) @ cs3) @ cs) = MAX_TOOL_ROUNDS - round"
        using c True rounds_run_token_calls[OF t3] by (simp add: rounds_run_def)
      moreover have "no_final_event (es1 @ es2 @ es)"
        using n1 n2 n by simp
      ultimately show ?thesis using e by blast
    qed
    show ?thesis
    proof (cases "sv_copilotToken sv")
      case None
      with run True so ok st e2 have "service_rounds env token (Suc round) (sv, ms2, w2) = (e, sv', ms', w')"
        by (simp add: unfold)
      from next_round[OF this refl grows_refl] show ?thesis by simp
    next
      case (Some t)
      obtain b w3 where ex: "isTokenExpired env (tok_expiresAt t) w2 = (b, w3)"
        by (cases "isTokenExpired env (tok_expiresAt t) w2")
      note g3 = isTokenExpired_grows[OF ex]
      show ?thesis
      proof (cases b)
        case False
        with run True so ok st e2 Some ex have
          "service_rounds env token (Suc round) (sv, ms2, w3) = (e, sv', ms', w')"
          by (simp add: unfold)
        from next_round[OF this refl g3] show ?thesis by simp
      next
        case expired: True
        from ensureCopilotToken_granted[OF granted, of w3] obtain token4 sv4 w4 where
          et: "ensureCopilotToken env (sv, w3) = (Inr token4, sv4, w4)"
          by (cases "ensureCopilotToken env (sv, w3)") auto
        from ensureCopilotToken_grows[OF et] obtain cs4 where
          p4: "sv_pat sv4 = sv_pat sv" and g4: "grows w3 w4 cs4 []" and t4: "list_all is_token_call cs4"
          by auto
        from run True so ok st e2 Some ex expired et have
          "service_rounds env token4 (Suc round) (sv4, ms2, w4) = (e, sv', ms', w')"
          by (simp add: unfold)
        from next_round[OF this p4, of "[ExpiryCheck b] @ cs4"] grows_trans[OF g3 g4] t4
        show ?thesis by simp
      qed
    qed
  qed
qed

lemma query_cap:
  assumes "env_cancel_after env = None" and "service_model_always_calls env"
    and "token_always_granted env (sv_pat sv)" and "sv_pat sv \<noteq> []"
    and "query env messages (sv, w) = (e, sv', ms', w')"
  shows "e = SendReturned \<and>
     (\<exists>cs es. grows w w' cs
                 (es @ [ErrorEvent (''Max tool rounds ('' @ string_of_int (int MAX_TOOL_ROUNDS) @ '') exceeded'')]) \<and>
        rounds_run cs = MAX_TOOL_ROUNDS \<and> no_final_event es)"
proof -
  let ?err = "ErrorEvent (''Max tool rounds ('' @ string_of_int (int MAX_TOOL_ROUNDS) @ '') exceeded'')"
  from ensureCopilotToken_granted[OF assms(3), of w] obtain token sv1 w1 where
    et: "ensureCopilotToken env (sv, w) = (Inr token, sv1, w1)"
    by (cases "ensureCopilotToken env (sv, w)") auto
  from ensureCopilotToken_grows[OF et] obtain cs1 where
    p1: "sv_pat sv1 = sv_pat sv" and g1: "grows w w1 cs1 []" and t1: "list_all is_token_call cs1"
    by auto
  have g0: "grows w1 (w1\<lparr>w_abort_looks := 0\<rparr>) [] []" by (simp add: grows_def)
  from assms(4,5) et have r:
    "service_rounds env token 0 (sv1, messages, w1\<lparr>w_abort_looks := 0\<rparr>) = (e, sv', ms', w')"
    by (simp add: query_def)
  from assms(3) p1 have "token_always_granted env (sv_pat sv1)" by simp
  from service_rounds_cap[OF assms(1,2) this _ r] obtain cs es where
    e: "e = SendReturned" and g: "grows (w1\<lparr>w_abort_looks := 0\<rparr>) w' cs (es @ [?err])"
    and c: "rounds_run cs = MAX_TOOL_ROUNDS" and n: "no_final_event es"
    by auto
  have "grows w w' ((cs1 @ []) @ cs) (([] @ []) @ es @ [?err])"
    using grows_trans[OF grows_trans[OF g1 g0] g] .
  then have "grows w w' ((cs1 @ []) @ cs) (es @ [?err])" by simp
  moreover have "rounds_run ((cs1 @ []) @ cs) = MAX_TOOL_ROUNDS"
    using c rounds_run_token_calls[OF t1] by simp
  ultimately show ?thesis using e n by blast
qed

lemma plugin_round_calls:
  assumes "env_cancel_after env = None" and "plugin_model_always_calls env"
  shows "\<exists>msg tcs w1 es.
     plugin_processRound env token (ag, w) =
       (Inr (Some msg), ag\<lparr>ag_messages := ag_messages ag @ [msg]\<rparr>, w1) \<and>
     msg_tool_calls msg = Some tcs \<and> tcs \<noteq> [] \<and>
     grows w w1 [ChatRequest token] es \<and> no_final_event es"
proof -
  from assms(2) obtain ls where
    fetch: "env_chat_text env (length (w_calls w)) token (ag_model ag) (ag_messages ag) = Inr ls"
    and ws: "well_shaped ls" and ne: "plugin_stream_fragments ls \<noteq> []"
    unfolding plugin_model_always_calls_def by blast
  let ?acc0 = "\<lparr>acc_text = [], acc_calls = []\<rparr>"
  obtain e acc w1 where sc: "plugin_streamChat env token ag (?acc0, w) = (e, acc, w1)"
    by (cases "plugin_streamChat env token ag (?acc0, w)")
  have "fst (plugin_streamChat env token ag (?acc0, w)) = StreamEnded"
    using fetch
    by (simp add: plugin_streamChat_def Let_def look_aborted_never[OF assms(1)]
        plugin_stream_ends[OF assms(1) ws])
  with sc have e: "e = StreamEnded" by simp
  from plugin_streamChat_grows[OF sc] obtain es1 where
    g1: "grows w w1 [ChatRequest token] es1" and n1: "no_final_event es1" by auto
  from sc e have pr: "plugin_processRound env token (ag, w) = plugin_finish_round acc (ag, w1)"
    by (simp add: plugin_processRound_def)
  from plugin_finish_round_result[of acc ag w1] obtain msg w2 es2 where
    f: "plugin_finish_round acc (ag, w1) =
          (Inr (Some msg), ag\<lparr>ag_messages := ag_messages ag @ [msg]\<rparr>, w2)"
    and g2: "grows w1 w2 [] es2" and n2: "no_final_event es2" by blast
  from plugin_processRound_streamed[OF assms(1) fetch ws] obtain acc' w1' where
    pr': "plugin_processRound env token (ag, w) = plugin_finish_round acc' (ag, w1')"
    and m: "acc_calls acc' = fst (plugin_fragments (plugin_stream_fragments ls) [])" by blast
  from plugin_finish_round_result[of acc' ag w1'] obtain msg' w2' es2' where
    f': "plugin_finish_round acc' (ag, w1') =
          (Inr (Some msg'), ag\<lparr>ag_messages := ag_messages ag @ [msg']\<rparr>, w2')"
    and t': "msg_tool_calls msg' = plugin_tool_calls (acc_calls acc')" by blast
  from pr pr' f f' have "msg = msg'" by simp
  moreover have "fst (plugin_fragments (plugin_stream_fragments ls) []) \<noteq> []"
    using plugin_keys_set[of "plugin_stream_fragments ls"] ne
    by (metis image_is_empty set_empty)
  ultimately have "msg_tool_calls msg = Some (map snd (acc_calls acc'))" "map snd (acc_calls acc') \<noteq> []"
    using t' m by (simp_all add: plugin_tool_calls_def)
  moreover have "grows w w2 ([ChatRequest token] @ []) (es1 @ es2)"
    using grows_trans[OF g1 g2] .
  ultimately show ?thesis using pr f n1 n2
    by (intro exI[of _ msg] exI[of _ "map snd (acc_calls acc')"] exI[of _ w2] exI[of _ "es1 @ es2"]) simp
qed

lemma plugin_executeToolCalls_returns:
  "env_cancel_after env = None \<Longrightarrow> env_regexp_remove_all env (vault @ ''/'') = Inr strip \<Longrightarrow>
     fst (plugin_executeToolCalls env vault tcs s) = SendReturned"
proof (induction tcs arbitrary: s)
  case Nil
  show ?case by simp
next
  case (Cons tc tcs)
  let ?w1 = "(snd s)\<lparr>w_abort_looks := Suc (w_abort_looks (snd s))\<rparr>"
  let ?input = "case env_json_parse env (call_arguments tc) of None \<Rightarrow> JObj [] | Some v \<Rightarrow> v"
  from plugin_execute_returns[OF Cons.prems(2)] obtain r fs1 where
    "plugin_execute env vault (call_name tc) ?input (w_fs ?w1) = (Result r, fs1)" by blast
  with Cons show ?case
    by (simp add: look_aborted_never Let_def)
qed

text \<open>
  \<^verbatim>\<open>send\<close> with such a model: from round \<open>rounds\<close> on, the loop makes one chat request for each
  round up to the cap, then emits the notice as text and the completion, having emitted no
  completion and no error before.
\<close>

lemma plugin_rounds_cap:
  "env_cancel_after env = None \<Longrightarrow> plugin_model_always_calls env \<Longrightarrow>
   env_regexp_remove_all env (ag_vault ag @ ''/'') = Inr strip \<Longrightarrow> rounds \<le> MAX_TOOL_ROUNDS \<Longrightarrow>
   plugin_rounds env token rounds (ag, w) = (e, ag', w') \<Longrightarrow>
     e = SendReturned \<and>
     (\<exists>cs es. grows w w' cs (es @ [TextDelta max_rounds_notice, Done]) \<and>
        rounds_run cs = MAX_TOOL_ROUNDS - rounds \<and> no_final_event es)"
proof (induction "MAX_TOOL_ROUNDS - rounds" arbitrary: rounds ag w rule: less_induct)
  case less
  note quiet = less.prems(1) and busy = less.prems(2) and strip = less.prems(3)
    and run = less.prems(5)
  note unfold = plugin_rounds.simps[of env token rounds "(ag, w)"]
  show ?case
  proof (cases "rounds < MAX_TOOL_ROUNDS")
    case False
    with run have "e = SendReturned" "w' = emit [TextDelta max_rounds_notice, Done] w"
      by (simp_all add: unfold)
    moreover from False less.prems(4) have "MAX_TOOL_ROUNDS - rounds = 0" by simp
    ultimately show ?thesis
      using grows_emit[of w "[TextDelta max_rounds_notice, Done]"]
      by (intro conjI exI[of _ "[]"]) (simp_all add: rounds_run_def)
  next
    case True
    let ?w1 = "w\<lparr>w_abort_looks := Suc (w_abort_looks w)\<rparr>"
    have g0: "grows w ?w1 [] []" by (simp add: grows_def)
    from plugin_round_calls[OF quiet busy, of token ag ?w1] obtain msg tcs w2 es2 where
      pr: "plugin_processRound env token (ag, ?w1) =
             (Inr (Some msg), ag\<lparr>ag_messages := ag_messages ag @ [msg]\<rparr>, w2)"
      and tc: "msg_tool_calls msg = Some tcs" "tcs \<noteq> []"
      and g2: "grows ?w1 w2 [ChatRequest token] es2" and n2: "no_final_event es2" by blast
    let ?ag2 = "ag\<lparr>ag_messages := ag_messages ag @ [msg]\<rparr>"
    obtain e3 res w3 where ex: "plugin_executeToolCalls env (ag_vault ag) tcs ([], w2) = (e3, res, w3)"
      by (cases "plugin_executeToolCalls env (ag_vault ag) tcs ([], w2)")
    from plugin_executeToolCalls_returns[OF quiet strip, of tcs "([], w2)"] ex
    have e3: "e3 = SendReturned" by simp
    from plugin_executeToolCalls_grows[OF ex] obtain es3 where
      g3: "grows w2 w3 [] es3" and n3: "no_final_event es3" by auto
    let ?w4 = "w3\<lparr>w_abort_looks := Suc (w_abort_looks w3)\<rparr>"
    have g4: "grows w3 ?w4 [] []" by (simp add: grows_def)
    let ?ag5 = "?ag2\<lparr>ag_messages := ag_messages ?ag2 @ res\<rparr>"
    from run True pr tc ex e3 have r:
      "plugin_rounds env token (Suc rounds) (?ag5, ?w4) = (e, ag', w')"
      by (simp add: unfold look_aborted_never[OF quiet])
    have less': "MAX_TOOL_ROUNDS - Suc rounds < MAX_TOOL_ROUNDS - rounds"
      using True by simp
    from strip have "env_regexp_remove_all env (ag_vault ?ag5 @ ''/'') = Inr strip" by simp
    from less.hyps[OF less' quiet busy this _ r] True obtain cs es where
      e: "e = SendReturned" and g: "grows ?w4 w' cs (es @ [TextDelta max_rounds_notice, Done])"
      and c: "rounds_run cs = MAX_TOOL_ROUNDS - Suc rounds" and n: "no_final_event es"
      by auto
    have "grows w w' (((([] @ [ChatRequest token]) @ []) @ []) @ cs)
        (((([] @ es2) @ es3) @ []) @ es @ [TextDelta max_rounds_notice, Done])"
      using grows_trans[OF grows_trans[OF grows_trans[OF grows_trans[OF g0 g2] g3] g4] g] .
    then have "grows w w' (ChatRequest token # cs) ((es2 @ es3 @ es) @ [TextDelta max_rounds_notice, Done])"
      by simp
    moreover have "rounds_run (ChatRequest token # cs) = MAX_TOOL_ROUNDS - rounds"
      using c True by (simp add: rounds_run_def)
    moreover have "no_final_event (es2 @ es3 @ es)"
      using n2 n3 n by simp
    ultimately show ?thesis using e by blast
  qed
qed

lemma ensureToken_granted:
  assumes "token_always_granted env (ag_pat ag)"
  shows "\<exists>t. fst (ensureToken env (ag, w)) = Inr t"
proof -
  obtain stale w1 where p:
    "(case ag_token ag of
        None \<Rightarrow> (True, w)
      | Some t \<Rightarrow> isTokenExpired env (tok_expiresAt t) w) = (stale, w1)"
    by (cases "case ag_token ag of
        None \<Rightarrow> (True, w)
      | Some t \<Rightarrow> isTokenExpired env (tok_expiresAt t) w")
  from assms obtain t where "env_fetch_token env (length (w_calls w1)) (ag_pat ag) = Inr t"
    unfolding token_always_granted_def by blast
  with p show ?thesis
    by (cases stale) (simp_all add: ensureToken_def fetchCopilotToken_def)
qed

lemma send_cap:
  assumes "env_cancel_after env = None" and "plugin_model_always_calls env"
    and "token_always_granted env (ag_pat ag)"
    and "env_regexp_remove_all env (ag_vault ag @ ''/'') = Inr strip"
    and "send env userMessage (ag, w) = (e, ag', w')"
  shows "e = SendReturned \<and>
     (\<exists>cs es. grows w w' cs (es @ [TextDelta max_rounds_notice, Done]) \<and>
        rounds_run cs = MAX_TOOL_ROUNDS \<and> no_final_event es)"
proof -
  let ?ag1 = "ag\<lparr>ag_messages := ag_messages ag
                   @ [\<lparr>msg_role = RoleUser, msg_content = Some userMessage, msg_tool_calls = None,
                       msg_tool_call_id = None\<rparr>]\<rparr>"
  let ?w1 = "w\<lparr>w_abort_looks := 0\<rparr>"
  have g0: "grows w ?w1 [] []" by (simp add: grows_def)
  from assms(3) have "token_always_granted env (ag_pat ?ag1)" by simp
  from ensureToken_granted[OF this, of ?w1] obtain token ag2 w2 where
    et: "ensureToken env (?ag1, ?w1) = (Inr token, ag2, w2)"
    by (cases "ensureToken env (?ag1, ?w1)") auto
  from ensureToken_grows[OF et] obtain cs1 where
    h: "history_grows ?ag1 ag2" and g1: "grows ?w1 w2 cs1 []" and t1: "list_all is_token_call cs1"
    by blast
  from h assms(4) have "env_regexp_remove_all env (ag_vault ag2 @ ''/'') = Inr strip"
    by (simp add: history_grows_def)
  moreover from assms(5) et have "plugin_rounds env token 0 (ag2, w2) = (e, ag', w')"
    by (simp add: send_def)
  ultimately obtain cs es where
    e: "e = SendReturned" and g: "grows w2 w' cs (es @ [TextDelta max_rounds_notice, Done])"
    and c: "rounds_run cs = MAX_TOOL_ROUNDS" and n: "no_final_event es"
    using plugin_rounds_cap[OF assms(1,2), of ag2 strip 0 token w2 e ag' w'] by auto
  have "grows w w' (([] @ cs1) @ cs) (([] @ []) @ es @ [TextDelta max_rounds_notice, Done])"
    using grows_trans[OF grows_trans[OF g0 g1] g] .
  then have "grows w w' (cs1 @ cs) (es @ [TextDelta max_rounds_notice, Done])" by simp
  moreover have "rounds_run (cs1 @ cs) = MAX_TOOL_ROUNDS"
    using c rounds_run_token_calls[OF t1] by simp
  ultimately show ?thesis using e n by blast
qed

lemma busy_env_quiet: "env_cancel_after busy_env = None"
  by (simp add: busy_env_def quiet_env_def)

lemma busy_env_granted: "token_always_granted busy_env pat"
  by (simp add: token_always_granted_def busy_env_def quiet_env_def)

lemma busy_env_plugin: "plugin_model_always_calls busy_env"
  by (simp add: plugin_model_always_calls_def busy_env_def noop_line_def tool_line_def
      well_shaped_chunk_def plugin_chunk_fragments_def delta_fragments_def)

lemma busy_env_service: "service_model_always_calls busy_env"
  by (simp add: service_model_always_calls_def busy_env_def noop_line_def tool_line_def
      service_well_shaped_def service_stream_fragments_def service_chunk_fragments_def
      delta_fragments_def)

lemma busy_env_strip: "env_regexp_remove_all busy_env (ag_vault agent0 @ ''/'') = Inr (\<lambda>s. s)"
  by (simp add: busy_env_def quiet_env_def)

lemma max_rounds_error:
  "''Max tool rounds ('' @ string_of_int (int MAX_TOOL_ROUNDS) @ '') exceeded'' = ''Max tool rounds (25) exceeded''"
  by code_simp

subsection \<open>The cap on the rounds\<close>

text \<open>
  C3. With a model that asks for a tool call in every round, the loop is meant to run
  exactly 25 rounds and then to emit the notice as assistant text and a completion, not an
  error. \<^verbatim>\<open>AgentLoop.send\<close> does: it makes 25 chat requests, its last two events are the notice
  as a text delta and the completion, and the completion is its only final event.
  \<^verbatim>\<open>CopilotService.query\<close>, with the same model, makes 25 chat requests as well, but then
  yields an error with the text \<^verbatim>\<open>Max tool rounds (25) exceeded\<close>: that error is its last event
  and its only final event, and no completion is yielded.
\<close>

theorem round_cap_reported_as_error:
  "rounds_run (w_calls (snd (snd (snd (query busy_env [user_message ''q''] (service0, world0)))))) = 25 \<and>
   last (w_events (snd (snd (snd (query busy_env [user_message ''q''] (service0, world0)))))) =
     ErrorEvent ''Max tool rounds (25) exceeded'' \<and>
   filter is_final_event (w_events (snd (snd (snd (query busy_env [user_message ''q''] (service0, world0)))))) =
     [ErrorEvent ''Max tool rounds (25) exceeded''] \<and>
   rounds_run (w_calls (snd (snd (send busy_env ''q'' (agent0, world0))))) = 25 \<and>
   take 2 (rev (w_events (snd (snd (send busy_env ''q'' (agent0, world0)))))) =
     [Done, TextDelta max_rounds_notice] \<and>
   filter is_final_event (w_events (snd (snd (send busy_env ''q'' (agent0, world0))))) = [Done]"
proof -
  obtain e sv' ms' w' where q: "query busy_env [user_message ''q''] (service0, world0) = (e, sv', ms', w')"
    by (cases "query busy_env [user_message ''q''] (service0, world0)")
  have "token_always_granted busy_env (sv_pat service0)" by (rule busy_env_granted)
  moreover have "sv_pat service0 \<noteq> []" by (simp add: service0_def)
  ultimately obtain cs es where
    g: "grows world0 w' cs (es @ [ErrorEvent ''Max tool rounds (25) exceeded''])"
    and c: "rounds_run cs = MAX_TOOL_ROUNDS" and n: "no_final_event es"
    using query_cap[OF busy_env_quiet busy_env_service _ _ q] max_rounds_error by auto
  obtain e2 ag' v' where s: "send busy_env ''q'' (agent0, world0) = (e2, ag', v')"
    by (cases "send busy_env ''q'' (agent0, world0)")
  have "token_always_granted busy_env (ag_pat agent0)" by (rule busy_env_granted)
  then obtain cs2 es2 where
    g2: "grows world0 v' cs2 (es2 @ [TextDelta max_rounds_notice, Done])"
    and c2: "rounds_run cs2 = MAX_TOOL_ROUNDS" and n2: "no_final_event es2"
    using send_cap[OF busy_env_quiet busy_env_plugin _ busy_env_strip s] by auto
  from g c n have "rounds_run (w_calls w') = 25"
    and "last (w_events w') = ErrorEvent ''Max tool rounds (25) exceeded''"
    and "filter is_final_event (w_events w') = [ErrorEvent ''Max tool rounds (25) exceeded'']"
    by (simp_all add: grows_def world0_def MAX_TOOL_ROUNDS_def no_final_event_def)
  moreover from g2 c2 n2 have "rounds_run (w_calls v') = 25"
    and "take 2 (rev (w_events v')) = [Done, TextDelta max_rounds_notice]"
    and "filter is_final_event (w_events v') = [Done]"
    by (simp_all add: grows_def world0_def MAX_TOOL_ROUNDS_def no_final_event_def)
  ultimately show ?thesis using q s by simp
qed


end
